theory Spec2Isabelle
  imports Complex_Main "HOL-Library.Sublist"
begin

section \<open>Data model\<close>

text \<open>
  The module under verification is \<^verbatim>\<open>corehttp/runtime/policies/_authentication_async.py\<close>,
  the class \<^verbatim>\<open>AsyncBearerTokenCredentialPolicy\<close>. Its collaborators (credential, clock,
  next pipeline stage, request and response types) live in other modules; they appear here
  as records and as oracles of an environment.
\<close>

text \<open>
  An authentication flow is a \<^verbatim>\<open>dict[str, Union[str, list[dict[str, str]]]]\<close>;
  dictionaries are association lists in insertion order.
\<close>

datatype flow_value = FlowStr string | FlowList "(string \<times> string) list list"

type_synonym auth_flow = "(string \<times> flow_value) list"

text \<open>
  \<^verbatim>\<open>AccessTokenInfo\<close>: the bearer string, the absolute expiry time and the optional
  refresh hint, both in whole seconds.
\<close>

record access_token_info =
  token :: string
  expires_on :: int
  refresh_on :: "int option"

text \<open>
  \<^verbatim>\<open>TokenRequestOptions\<close> is a dictionary from option names to values; the values this
  module handles are flow lists, strings and flags.
\<close>

datatype option_value = Flows "auth_flow list" | Text string | Flag bool

type_synonym token_request_options = "(string \<times> option_value) list"

text \<open>
  Modelled from the spec: the request type is declared outside this module. A request
  carries mutable headers, a per-call options bag of which this module reads only the
  entry \<^verbatim>\<open>auth_flows\<close> (\<open>None\<close> when the key is absent), and a target that either is a
  secure transport or is not.
\<close>

record pipeline_request =
  headers :: "string \<rightharpoonup> string"
  options_auth_flows :: "auth_flow list option"
  secure_transport :: bool

text \<open>
  Modelled from the spec: the response type is declared outside this module. A response
  carries a status code and headers.
\<close>

record pipeline_response =
  status_code :: int
  response_headers :: "string \<rightharpoonup> string"

text \<open>
  Exceptions, tagged by the place that raises them: the transport-security error of
  \<^verbatim>\<open>_enforce_https\<close>, a failure of the credential, a failure of the next pipeline stage
  (both carry the name of the foreign exception), a failure raised by an overriding
  challenge handler, and the \<^verbatim>\<open>AttributeError\<close> of reading \<^verbatim>\<open>.token\<close> from \<^verbatim>\<open>None\<close>.
\<close>

datatype exn =
  ServiceRequestError
  | CredentialError string
  | NextPolicyError string
  | ChallengeError string
  | AttributeError

text \<open>
  What one coroutine does to the shared objects, in program order: creating, acquiring
  and releasing the lock, calling the credential, assigning \<^verbatim>\<open>self._token\<close>, and
  forwarding to the next stage.
\<close>

datatype event =
  CreateLock
  | AcquireLock
  | ReleaseLock
  | GetTokenInfo "string list" token_request_options
  | SetToken "access_token_info option"
  | NextSend pipeline_request

text \<open>
  The policy object: the fields assigned in \<^verbatim>\<open>__init__\<close> (\<open>self_lock_instance\<close> is
  \<open>True\<close> once \<^verbatim>\<open>_lock_instance\<close> is not \<^verbatim>\<open>None\<close>), together with the number of clock
  readings made so far and the trace of events. \<^verbatim>\<open>self._credential\<close> is an oracle of
  the environment.
\<close>

record policy =
  self_token :: "access_token_info option"
  self_lock_instance :: bool
  self_scopes :: "string list"
  self_auth_flows :: "auth_flow list option"
  clock_reads :: nat
  trace :: "event list"

text \<open>
  The environment: \<open>time_time n\<close> is the value of the \<open>n\<close>-th call of \<^verbatim>\<open>time.time()\<close>,
  \<open>get_token_info n\<close> the answer of the credential to its \<open>n\<close>-th call, \<open>next_send n\<close>
  the answer of the next stage to its \<open>n\<close>-th call (\<open>Inl\<close> is a raised exception), and
  \<open>option_keys\<close> the keys of \<^verbatim>\<open>TokenRequestOptions.__annotations__\<close>.
\<close>

record env =
  time_time :: "nat \<Rightarrow> real"
  get_token_info :: "nat \<Rightarrow> string list \<Rightarrow> token_request_options \<Rightarrow> string + access_token_info"
  next_send :: "nat \<Rightarrow> pipeline_request \<Rightarrow> string + pipeline_response"
  option_keys :: "string list"

section \<open>Bookkeeping on traces\<close>

definition log :: "event \<Rightarrow> policy \<Rightarrow> policy" where
  "log e p = p\<lparr>trace := trace p @ [e]\<rparr>"

fun is_fetch :: "event \<Rightarrow> bool" where
  "is_fetch (GetTokenInfo s opts) = True"
| "is_fetch e = False"

fun is_send :: "event \<Rightarrow> bool" where
  "is_send (NextSend r) = True"
| "is_send e = False"

definition count_fetch :: "event list \<Rightarrow> nat" where
  "count_fetch es = length (filter is_fetch es)"

definition count_send :: "event list \<Rightarrow> nat" where
  "count_send es = length (filter is_send es)"

text \<open>The events a computation added to the trace it started from.\<close>

definition new_events :: "policy \<Rightarrow> policy \<Rightarrow> event list" where
  "new_events p p' = drop (length (trace p)) (trace p')"

section \<open>The refresh decision\<close>

text \<open>
  \<^verbatim>\<open>_need_new_token\<close>, lines 179 to 186, as a function of the cached token and of the
  clock reading \<open>now\<close>. An \<^verbatim>\<open>AccessTokenInfo\<close> object is truthy, so \<^verbatim>\<open>not self._token\<close>
  holds exactly when the field is \<^verbatim>\<open>None\<close>.
\<close>

definition need_new_token :: "access_token_info option \<Rightarrow> real \<Rightarrow> bool" where
  "need_new_token tok now =
     (case tok of
        None \<Rightarrow> True
      | Some t \<Rightarrow>
          (case refresh_on t of None \<Rightarrow> False | Some r \<Rightarrow> real_of_int r \<le> now)
          \<or> real_of_int (expires_on t) - now < 300)"

text \<open>
  The condition \<^verbatim>\<open>self._token is None or self._need_new_token\<close> of lines 76 and 79. The
  property reads the clock once, and only when the left operand is false.
\<close>

definition token_stale :: "env \<Rightarrow> policy \<Rightarrow> bool \<times> policy" where
  "token_stale env p =
     (case self_token p of
        None \<Rightarrow> (True, p)
      | Some t \<Rightarrow>
          (need_new_token (Some t) (time_time env (clock_reads p)),
           p\<lparr>clock_reads := Suc (clock_reads p)\<rparr>))"

section \<open>Authorization injection\<close>

text \<open>The property \<^verbatim>\<open>_lock\<close>, lines 51 to 55: the lock is created on first use.\<close>

definition lock :: "policy \<Rightarrow> policy" where
  "lock p = (if self_lock_instance p then p else log CreateLock (p\<lparr>self_lock_instance := True\<rparr>))"

text \<open>
  Entering and leaving \<^verbatim>\<open>async with self._lock\<close>, for a coroutine that runs alone and so
  finds the lock free. Coroutines that compete for the lock are the subject of the section
  on interleaved calls.
\<close>

definition acquire :: "policy \<Rightarrow> policy" where
  "acquire p = log AcquireLock (lock p)"

definition release :: "policy \<Rightarrow> policy" where
  "release p = log ReleaseLock p"

text \<open>The assignment \<^verbatim>\<open>self._token = ...\<close>.\<close>

definition set_token :: "access_token_info option \<Rightarrow> policy \<Rightarrow> policy" where
  "set_token t p = log (SetToken t) (p\<lparr>self_token := t\<rparr>)"

text \<open>
  \<^verbatim>\<open>await await_result(self._credential.get_token_info, *scopes, options=options)\<close>:
  the call is recorded, and the credential answers according to how many calls came before.
\<close>

definition fetch ::
  "env \<Rightarrow> policy \<Rightarrow> string list \<Rightarrow> token_request_options \<Rightarrow> (exn + access_token_info) \<times> policy"
where
  "fetch env p scopes opts =
     (case get_token_info env (count_fetch (trace p)) scopes opts of
        Inl e \<Rightarrow> (Inl (CredentialError e), log (GetTokenInfo scopes opts) p)
      | Inr t \<Rightarrow> (Inr t, log (GetTokenInfo scopes opts) p))"

text \<open>
  Modelled from the spec: \<^verbatim>\<open>_BearerTokenCredentialPolicyBase._enforce_https\<close> is defined in
  \<^verbatim>\<open>_authentication.py\<close>, outside this module. It enforces that the request's target is a
  secure transport and fails with a transport-security error if not.
\<close>

definition enforce_https :: "pipeline_request \<Rightarrow> exn + unit" where
  "enforce_https request = (if secure_transport request then Inr () else Inl ServiceRequestError)"

text \<open>
  Line 80: \<^verbatim>\<open>{"auth_flows": auth_flows} if auth_flows else {}\<close>. \<^verbatim>\<open>None\<close> and the empty
  list are both falsy.
\<close>

fun request_options :: "auth_flow list option \<Rightarrow> token_request_options" where
  "request_options None = []"
| "request_options (Some []) = []"
| "request_options (Some (f # fs)) = [(''auth_flows'', Flows (f # fs))]"

text \<open>
  Lines 76 to 81 of \<^verbatim>\<open>on_request\<close>: the check, the lock, the second check, the fetch. An
  exception of the credential leaves the \<^verbatim>\<open>async with\<close> block, which releases the lock,
  before the assignment.
\<close>

definition refresh_token :: "env \<Rightarrow> policy \<Rightarrow> auth_flow list option \<Rightarrow> (exn + unit) \<times> policy" where
  "refresh_token env p auth_flows =
     (case token_stale env p of
        (False, p1) \<Rightarrow> (Inr (), p1)
      | (True, p1) \<Rightarrow>
          (case token_stale env (acquire p1) of
             (False, p2) \<Rightarrow> (Inr (), release p2)
           | (True, p2) \<Rightarrow>
               (case fetch env p2 (self_scopes p2) (request_options auth_flows) of
                  (Inl e, p3) \<Rightarrow> (Inl e, release p3)
                | (Inr t, p3) \<Rightarrow> (Inr (), release (set_token (Some t) p3)))))"

text \<open>
  Line 82 and line 101: \<^verbatim>\<open>headers["Authorization"] = "Bearer " + self._token.token\<close>.
\<close>

definition set_authorization :: "policy \<Rightarrow> pipeline_request \<Rightarrow> exn + pipeline_request" where
  "set_authorization p request =
     (case self_token p of
        None \<Rightarrow> Inl AttributeError
      | Some t \<Rightarrow> Inr (request\<lparr>headers := (headers request)(''Authorization'' \<mapsto> ''Bearer '' @ token t)\<rparr>))"

text \<open>
  \<^verbatim>\<open>on_request\<close>, lines 57 to 82. The result is the outcome (\<open>Inl\<close> the exception raised),
  the policy and the request as the call leaves them.
\<close>

definition on_request ::
  "env \<Rightarrow> policy \<Rightarrow> pipeline_request \<Rightarrow> auth_flow list option
     \<Rightarrow> (exn + unit) \<times> policy \<times> pipeline_request"
where
  "on_request env p request auth_flows =
     (case auth_flows of
        Some [] \<Rightarrow> (Inr (), p, request)
      | _ \<Rightarrow>
          (case enforce_https request of
             Inl e \<Rightarrow> (Inl e, p, request)
           | Inr u \<Rightarrow>
               (case refresh_token env p auth_flows of
                  (Inl e, p1) \<Rightarrow> (Inl e, p1, request)
                | (Inr u1, p1) \<Rightarrow>
                    (case set_authorization p1 request of
                       Inl e \<Rightarrow> (Inl e, p1, request)
                     | Inr request1 \<Rightarrow> (Inr (), p1, request1)))))"

text \<open>
  The loop of lines 93 to 97 of \<^verbatim>\<open>authorize_request\<close>: the keyword arguments whose key
  is an annotation of \<^verbatim>\<open>TokenRequestOptions\<close> move into the options, in the order of
  the keyword arguments.
\<close>

fun collect_options :: "string list \<Rightarrow> (string \<times> option_value) list \<Rightarrow> token_request_options" where
  "collect_options keys [] = []"
| "collect_options keys ((k, v) # kwargs) =
     (if k \<in> set keys then (k, v) # collect_options keys kwargs
      else collect_options keys kwargs)"

text \<open>\<^verbatim>\<open>authorize_request\<close>, lines 84 to 101.\<close>

definition authorize_request ::
  "env \<Rightarrow> policy \<Rightarrow> pipeline_request \<Rightarrow> string list \<Rightarrow> (string \<times> option_value) list
     \<Rightarrow> (exn + unit) \<times> policy \<times> pipeline_request"
where
  "authorize_request env p request scopes kwargs =
     (case fetch env (acquire p) scopes (collect_options (option_keys env) kwargs) of
        (Inl e, p1) \<Rightarrow> (Inl e, release p1, request)
      | (Inr t, p1) \<Rightarrow>
          (case set_authorization (release (set_token (Some t) p1)) request of
             Inl e \<Rightarrow> (Inl e, release (set_token (Some t) p1), request)
           | Inr request1 \<Rightarrow> (Inr (), release (set_token (Some t) p1), request1)))"

section \<open>The challenge-retry protocol\<close>

text \<open>
  The hooks \<^verbatim>\<open>on_response\<close> and \<^verbatim>\<open>on_exception\<close>, lines 155 to 177, have no effect, and
  \<^verbatim>\<open>on_challenge\<close>, lines 137 to 153, declines every challenge.
\<close>

definition on_response :: "policy \<Rightarrow> pipeline_request \<Rightarrow> pipeline_response \<Rightarrow> policy" where
  "on_response p request response = p"

definition on_exception :: "policy \<Rightarrow> pipeline_request \<Rightarrow> policy" where
  "on_exception p request = p"

type_synonym challenge_handler =
  "policy \<Rightarrow> pipeline_request \<Rightarrow> pipeline_response \<Rightarrow> (exn + bool) \<times> policy \<times> pipeline_request"

definition on_challenge :: challenge_handler where
  "on_challenge p request response = (Inr False, p, request)"

text \<open>
  Lines 116 to 121, and again lines 128 to 133: forward to the next stage, then run the
  exception hook and re-raise, or run the response hook.
\<close>

definition forward :: "env \<Rightarrow> policy \<Rightarrow> pipeline_request \<Rightarrow> (exn + pipeline_response) \<times> policy" where
  "forward env p request =
     (case next_send env (count_send (trace p)) request of
        Inl e \<Rightarrow> (Inl (NextPolicyError e), on_exception (log (NextSend request) p) request)
      | Inr response \<Rightarrow> (Inr response, on_response (log (NextSend request) p) request response))"

text \<open>
  Lines 123 to 135, after the first response has arrived. A subclass may override
  \<^verbatim>\<open>on_challenge\<close>, so the handler is a parameter; it may change the policy and the
  request, and may raise.
\<close>

definition handle_response ::
  "env \<Rightarrow> challenge_handler \<Rightarrow> policy \<Rightarrow> pipeline_request \<Rightarrow> pipeline_response
     \<Rightarrow> (exn + pipeline_response) \<times> policy \<times> pipeline_request"
where
  "handle_response env handler p request response =
     (if status_code response = 401 then
        (if response_headers response ''WWW-Authenticate'' \<noteq> None then
           (case handler (set_token None p) request response of
              (Inl e, p1, request1) \<Rightarrow> (Inl e, p1, request1)
            | (Inr False, p1, request1) \<Rightarrow> (Inr response, p1, request1)
            | (Inr True, p1, request1) \<Rightarrow>
                (case forward env p1 request1 of
                   (Inl e, p2) \<Rightarrow> (Inl e, p2, request1)
                 | (Inr response2, p2) \<Rightarrow> (Inr response2, p2, request1)))
         else (Inr response, set_token None p, request))
      else (Inr response, p, request))"

text \<open>
  Lines 113 and 114 of \<^verbatim>\<open>send\<close>: the value popped from the options bag when it is not
  \<^verbatim>\<open>None\<close>, else the flows the policy was configured with.
\<close>

definition effective_auth_flows :: "policy \<Rightarrow> pipeline_request \<Rightarrow> auth_flow list option" where
  "effective_auth_flows p request =
     (case options_auth_flows request of
        Some op_auth_flows \<Rightarrow> Some op_auth_flows
      | None \<Rightarrow> self_auth_flows p)"

text \<open>
  \<^verbatim>\<open>send\<close>, lines 103 to 135. The \<^verbatim>\<open>pop\<close> of line 113 removes the per-call override from
  the options bag of the request.
\<close>

definition send ::
  "env \<Rightarrow> challenge_handler \<Rightarrow> policy \<Rightarrow> pipeline_request
     \<Rightarrow> (exn + pipeline_response) \<times> policy \<times> pipeline_request"
where
  "send env handler p request =
     (case on_request env p (request\<lparr>options_auth_flows := None\<rparr>)
             (effective_auth_flows p request) of
        (Inl e, p1, request1) \<Rightarrow> (Inl e, p1, request1)
      | (Inr u, p1, request1) \<Rightarrow>
          (case forward env p1 request1 of
             (Inl e, p2) \<Rightarrow> (Inl e, p2, request1)
           | (Inr response, p2) \<Rightarrow> handle_response env handler p2 request1 response))"

section \<open>Interleaved calls\<close>

text \<open>
  Clients call \<^verbatim>\<open>on_request\<close> and \<^verbatim>\<open>send\<close> on one policy object. Each call is a
  coroutine; between two suspension points a coroutine runs alone, and at a suspension
  point any other coroutine may run. A call through \<^verbatim>\<open>send\<close> uses \<^verbatim>\<open>on_challenge\<close> as
  the class defines it.
\<close>

datatype call =
  OnRequest pipeline_request "auth_flow list option"
  | Send pipeline_request

text \<open>Whether \<^verbatim>\<open>on_request\<close> was called by the client or by line 115 of \<^verbatim>\<open>send\<close>.\<close>

datatype kind = ByOnRequest | BySend

text \<open>
  Where a coroutine is suspended: not started yet; at \<^verbatim>\<open>async with self._lock\<close> of line
  77, waiting for the lock; at the \<^verbatim>\<open>await\<close> of line 81, holding the lock, with the number
  and the arguments of its call of the credential; at \<^verbatim>\<open>await self.next.send(request)\<close> of
  line 117, with the number of its call of the next stage; or finished, with what it
  returned (\<open>None\<close> for \<^verbatim>\<open>on_request\<close>) or raised and with its request.
\<close>

datatype task =
  Start call
  | WaitLock kind pipeline_request "auth_flow list option"
  | Fetching kind pipeline_request nat "string list" token_request_options
  | Forwarding pipeline_request nat
  | Done "exn + pipeline_response option" pipeline_request

text \<open>The policy object, the task that holds the lock if any, and the coroutines.\<close>

record system =
  pol :: policy
  holder :: "nat option"
  tasks :: "task list"

text \<open>
  \<^verbatim>\<open>on_request\<close> has returned normally: a direct call is finished, and \<^verbatim>\<open>send\<close> goes on
  to line 117, calls the next stage and suspends.
\<close>

definition authorized :: "kind \<Rightarrow> policy \<Rightarrow> pipeline_request \<Rightarrow> policy \<times> task" where
  "authorized k p request =
     (case k of
        ByOnRequest \<Rightarrow> (p, Done (Inr None) request)
      | BySend \<Rightarrow> (log (NextSend request) p, Forwarding request (count_send (trace p))))"

text \<open>Line 82, then the return of \<^verbatim>\<open>on_request\<close>.\<close>

definition attach :: "kind \<Rightarrow> policy \<Rightarrow> pipeline_request \<Rightarrow> policy \<times> task" where
  "attach k p request =
     (case set_authorization p request of
        Inl e \<Rightarrow> (p, Done (Inl e) request)
      | Inr request1 \<Rightarrow> authorized k p request1)"

text \<open>
  Lines 72 to 77 of \<^verbatim>\<open>on_request\<close>, up to the first suspension: the empty list, the
  secure-transport check, the first staleness check, and the \<^verbatim>\<open>_lock\<close> property, which
  creates the lock on first use, before the coroutine waits for the lock.
\<close>

definition begin_on_request ::
  "env \<Rightarrow> kind \<Rightarrow> policy \<Rightarrow> pipeline_request \<Rightarrow> auth_flow list option \<Rightarrow> policy \<times> task"
where
  "begin_on_request env k p request auth_flows =
     (case auth_flows of
        Some [] \<Rightarrow> authorized k p request
      | _ \<Rightarrow>
          (case enforce_https request of
             Inl e \<Rightarrow> (p, Done (Inl e) request)
           | Inr u \<Rightarrow>
               (case token_stale env p of
                  (False, p1) \<Rightarrow> attach k p1 request
                | (True, p1) \<Rightarrow> (lock p1, WaitLock k request auth_flows))))"

text \<open>
  One coroutine runs from where it is suspended to its next suspension point. \<open>i\<close> is
  its number, \<open>h\<close> the holder of the lock.
  \<^item> Not started: a direct call begins \<^verbatim>\<open>on_request\<close>; \<^verbatim>\<open>send\<close> first resolves the flows
    (lines 113 and 114).
  \<^item> Waiting for the lock: it stays suspended while another task holds the lock, and the
    scheduler may keep it waiting after the lock has become free. When it resumes with
    the lock free it acquires it and checks again (line 79). If a token is no longer
    needed it leaves the block, which releases the lock, and goes on to line 82. Otherwise
    it calls the credential and suspends at line 81 with the lock held.
  \<^item> Suspended at line 81: the credential answers. An exception leaves the block and
    propagates; a token is assigned, the lock is released, and line 82 follows. Leaving
    the block does not suspend the coroutine.
  \<^item> Suspended at line 117: the next stage answers, and lines 118 to 135 run.
\<close>

fun task_step :: "env \<Rightarrow> nat \<Rightarrow> policy \<Rightarrow> nat option \<Rightarrow> task \<Rightarrow> policy \<times> nat option \<times> task" where
  "task_step env i p h (Start (OnRequest request auth_flows)) =
     (case begin_on_request env ByOnRequest p request auth_flows of (p1, t) \<Rightarrow> (p1, h, t))"
| "task_step env i p h (Start (Send request)) =
     (case begin_on_request env BySend p (request\<lparr>options_auth_flows := None\<rparr>)
             (effective_auth_flows p request) of
        (p1, t) \<Rightarrow> (p1, h, t))"
| "task_step env i p h (WaitLock k request auth_flows) =
     (case h of
        Some j \<Rightarrow> (p, h, WaitLock k request auth_flows)
      | None \<Rightarrow>
          (case token_stale env (log AcquireLock p) of
             (False, p2) \<Rightarrow> (case attach k (release p2) request of (p3, t) \<Rightarrow> (p3, None, t))
           | (True, p2) \<Rightarrow>
               (log (GetTokenInfo (self_scopes p2) (request_options auth_flows)) p2, Some i,
                Fetching k request (count_fetch (trace p2)) (self_scopes p2)
                  (request_options auth_flows))))"
| "task_step env i p h (Fetching k request n scopes opts) =
     (case get_token_info env n scopes opts of
        Inl e \<Rightarrow> (release p, None, Done (Inl (CredentialError e)) request)
      | Inr t \<Rightarrow>
          (case attach k (release (set_token (Some t) p)) request of (p1, t1) \<Rightarrow> (p1, None, t1)))"
| "task_step env i p h (Forwarding request n) =
     (case next_send env n request of
        Inl e \<Rightarrow> (on_exception p request, h, Done (Inl (NextPolicyError e)) request)
      | Inr response \<Rightarrow>
          (case handle_response env on_challenge (on_response p request response) request
                  response of
             (Inl e, p1, request1) \<Rightarrow> (p1, h, Done (Inl e) request1)
           | (Inr response1, p1, request1) \<Rightarrow> (p1, h, Done (Inr (Some response1)) request1)))"
| "task_step env i p h (Done r request) = (p, h, Done r request)"

text \<open>The scheduler resumes task \<open>i\<close>; a number that names no task changes nothing.\<close>

definition step :: "env \<Rightarrow> nat \<Rightarrow> system \<Rightarrow> system" where
  "step env i s =
     (if i < length (tasks s) then
        (case task_step env i (pol s) (holder s) (tasks s ! i) of
           (p, h, t) \<Rightarrow> \<lparr>pol = p, holder = h, tasks = (tasks s)[i := t]\<rparr>)
      else s)"

text \<open>A schedule names the task resumed at each step.\<close>

fun run :: "env \<Rightarrow> nat list \<Rightarrow> system \<Rightarrow> system" where
  "run env [] s = s"
| "run env (i # schedule) s = run env schedule (step env i s)"

text \<open>No call has started, and the lock is free.\<close>

definition initial :: "policy \<Rightarrow> call list \<Rightarrow> system" where
  "initial p cs = \<lparr>pol = p, holder = None, tasks = map Start cs\<rparr>"

text \<open>
  The token's \<^verbatim>\<open>expires_on\<close> is more than 300 seconds after every clock reading, and its
  \<^verbatim>\<open>refresh_on\<close> is unset or after every clock reading.
\<close>

definition always_valid :: "env \<Rightarrow> access_token_info \<Rightarrow> bool" where
  "always_valid env t =
     (\<forall>n. 300 < real_of_int (expires_on t) - time_time env n
          \<and> (case refresh_on t of None \<Rightarrow> True | Some r \<Rightarrow> time_time env n < real_of_int r))"

text \<open>The credential answers every call with such a token.\<close>

definition issues_valid_tokens :: "env \<Rightarrow> bool" where
  "issues_valid_tokens env =
     (\<forall>n scopes opts. \<exists>t. get_token_info env n scopes opts = Inr t \<and> always_valid env t)"

text \<open>No response of the next stage has status 401.\<close>

definition never_401 :: "env \<Rightarrow> bool" where
  "never_401 env =
     (\<forall>n request response. next_send env n request = Inr response \<longrightarrow> status_code response \<noteq> 401)"

text \<open>A task is suspended at line 81.\<close>

fun is_fetching :: "task \<Rightarrow> bool" where
  "is_fetching (Fetching k request n scopes opts) = True"
| "is_fetching t = False"

text \<open>
  The invariant behind the bound on credential calls, for a trace that held \<open>n0\<close> calls
  at the start: the task suspended at line 81 is the holder of the lock; at most one call
  has been added; and once it has been added, either its caller still holds the lock or
  the cached token is one that stays valid.
\<close>

definition fetch_inv :: "env \<Rightarrow> nat \<Rightarrow> system \<Rightarrow> bool" where
  "fetch_inv env n0 s =
     ((\<forall>j < length (tasks s). is_fetching (tasks s ! j) \<longleftrightarrow> holder s = Some j)
      \<and> n0 \<le> count_fetch (trace (pol s))
      \<and> count_fetch (trace (pol s)) \<le> Suc n0
      \<and> (count_fetch (trace (pol s)) = Suc n0 \<longrightarrow>
           holder s \<noteq> None \<or> (\<exists>t. self_token (pol s) = Some t \<and> always_valid env t)))"

text \<open>
  For comparing a system of one task with \<^verbatim>\<open>send\<close> as a function: the system made of one
  task and a free lock, lines 116 to 135 of \<^verbatim>\<open>send\<close> with \<^verbatim>\<open>on_challenge\<close> as the class
  defines it, and the finished system that a result of \<^verbatim>\<open>send\<close> stands for.
\<close>

definition single :: "policy \<Rightarrow> task \<Rightarrow> system" where
  "single q t = \<lparr>pol = q, holder = None, tasks = [t]\<rparr>"

definition send_rest ::
  "env \<Rightarrow> policy \<Rightarrow> pipeline_request \<Rightarrow> (exn + pipeline_response) \<times> policy \<times> pipeline_request"
where
  "send_rest env p request =
     (case forward env p request of
        (Inl e, p2) \<Rightarrow> (Inl e, p2, request)
      | (Inr response, p2) \<Rightarrow> handle_response env on_challenge p2 request response)"

fun outcome :: "(exn + pipeline_response) \<times> policy \<times> pipeline_request \<Rightarrow> system" where
  "outcome (Inl e, p, request) = single p (Done (Inl e) request)"
| "outcome (Inr response, p, request) = single p (Done (Inr (Some response)) request)"

section \<open>The lock discipline\<close>

text \<open>
  \<open>guarded held es\<close>: in the events \<open>es\<close> of one coroutine, which starts with the lock
  held or not as \<open>held\<close> says, every assignment to \<^verbatim>\<open>self._token\<close> happens while the
  coroutine holds the lock.
\<close>

fun guarded :: "bool \<Rightarrow> event list \<Rightarrow> bool" where
  "guarded held [] = True"
| "guarded held (AcquireLock # es) = guarded True es"
| "guarded held (ReleaseLock # es) = guarded False es"
| "guarded held (SetToken t # es) = (held \<and> guarded held es)"
| "guarded held (e # es) = guarded held es"

text \<open>Whether the coroutine holds the lock after the events \<open>es\<close>.\<close>

fun held_after :: "bool \<Rightarrow> event list \<Rightarrow> bool" where
  "held_after held [] = held"
| "held_after held (AcquireLock # es) = held_after True es"
| "held_after held (ReleaseLock # es) = held_after False es"
| "held_after held (e # es) = held_after held es"

text \<open>The values assigned to \<^verbatim>\<open>self._token\<close> while the coroutine does not hold the lock.\<close>

fun unguarded_writes :: "bool \<Rightarrow> event list \<Rightarrow> access_token_info option list" where
  "unguarded_writes held [] = []"
| "unguarded_writes held (AcquireLock # es) = unguarded_writes True es"
| "unguarded_writes held (ReleaseLock # es) = unguarded_writes False es"
| "unguarded_writes held (SetToken t # es) =
     (if held then unguarded_writes held es else t # unguarded_writes held es)"
| "unguarded_writes held (e # es) = unguarded_writes held es"

text \<open>The calls of the credential in a trace: scopes and options, in order.\<close>

fun fetched :: "event list \<Rightarrow> (string list \<times> token_request_options) list" where
  "fetched [] = []"
| "fetched (GetTokenInfo scopes opts # es) = (scopes, opts) # fetched es"
| "fetched (e # es) = fetched es"

text \<open>
  What is asked of an overriding challenge handler: it adds to the trace of the policy
  it is given, and it does not itself forward the request to the next stage.
\<close>

definition handler_ok :: "challenge_handler \<Rightarrow> bool" where
  "handler_ok handler =
     (\<forall>p request response.
        \<exists>es. trace (fst (snd (handler p request response))) = trace p @ es \<and> count_send es = 0)"

section \<open>Concrete inputs\<close>

text \<open>
  A clock that stands at second 1000; a credential that issues a token expiring at
  second 5000 on its first call and another one on every later call; a token with 200
  seconds left; and a next stage that answers 401 with a challenge to the first request
  and 401 without a challenge to every later one.
\<close>

definition example_token :: access_token_info where
  "example_token = \<lparr>token = ''abc'', expires_on = 5000, refresh_on = None\<rparr>"

definition second_token :: access_token_info where
  "second_token = \<lparr>token = ''xyz'', expires_on = 6000, refresh_on = Some 5500\<rparr>"

definition expiring_token :: access_token_info where
  "expiring_token = \<lparr>token = ''old'', expires_on = 1200, refresh_on = None\<rparr>"

definition challenge_response :: pipeline_response where
  "challenge_response =
     \<lparr>status_code = 401, response_headers = [''WWW-Authenticate'' \<mapsto> ''Bearer realm=x'']\<rparr>"

definition plain_401_response :: pipeline_response where
  "plain_401_response = \<lparr>status_code = 401, response_headers = Map.empty\<rparr>"

definition example_env :: env where
  "example_env =
     \<lparr>time_time = (\<lambda>n. 1000),
      get_token_info = (\<lambda>n scopes opts. Inr (if n = 0 then example_token else second_token)),
      next_send = (\<lambda>n request. Inr (if n = 0 then challenge_response else plain_401_response)),
      option_keys = [''auth_flows'', ''claims'', ''tenant_id'', ''enable_cae'']\<rparr>"

text \<open>
  The same environment with a next stage that answers 401 without a challenge every
  time, and with one that answers 200 every time.
\<close>

definition plain_env :: env where
  "plain_env = example_env\<lparr>next_send := (\<lambda>n request. Inr plain_401_response)\<rparr>"

definition ok_response :: pipeline_response where
  "ok_response = \<lparr>status_code = 200, response_headers = Map.empty\<rparr>"

definition ok_env :: env where
  "ok_env = example_env\<lparr>next_send := (\<lambda>n request. Inr ok_response)\<rparr>"

text \<open>A policy as \<^verbatim>\<open>__init__\<close> leaves it, configured with one flow, and a request.\<close>

definition flow_a :: auth_flow where
  "flow_a = [(''type'', FlowStr ''flowA'')]"

definition flow_b :: auth_flow where
  "flow_b = [(''type'', FlowStr ''flowB'')]"

definition new_policy :: policy where
  "new_policy =
     \<lparr>self_token = None, self_lock_instance = False, self_scopes = [''scope''],
      self_auth_flows = Some [flow_b], clock_reads = 0, trace = []\<rparr>"

definition example_request :: pipeline_request where
  "example_request =
     \<lparr>headers = Map.empty, options_auth_flows = None, secure_transport = True\<rparr>"

text \<open>
  The policy and the request after the first \<^verbatim>\<open>on_request\<close> of \<^verbatim>\<open>send\<close> on
  \<open>new_policy\<close> and \<open>example_request\<close>.
\<close>

definition after_first_fetch :: policy where
  "after_first_fetch =
     new_policy\<lparr>self_token := Some example_token, self_lock_instance := True,
       trace := [CreateLock, AcquireLock,
                 GetTokenInfo [''scope''] [(''auth_flows'', Flows [flow_b])],
                 SetToken (Some example_token), ReleaseLock]\<rparr>"

definition authorized_request :: pipeline_request where
  "authorized_request = example_request\<lparr>headers := [''Authorization'' \<mapsto> ''Bearer abc'']\<rparr>"

text \<open>
  The policy and the request after \<open>accepting_handler\<close> has answered the challenge to
  that first request.
\<close>

definition reauthorized :: policy where
  "reauthorized =
     new_policy\<lparr>self_token := Some second_token, self_lock_instance := True,
       trace := [CreateLock, AcquireLock,
                 GetTokenInfo [''scope''] [(''auth_flows'', Flows [flow_b])],
                 SetToken (Some example_token), ReleaseLock,
                 NextSend authorized_request, SetToken None,
                 AcquireLock, GetTokenInfo [''scope2''] [], SetToken (Some second_token),
                 ReleaseLock]\<rparr>"

definition reauthorized_request :: pipeline_request where
  "reauthorized_request = example_request\<lparr>headers := [''Authorization'' \<mapsto> ''Bearer xyz'']\<rparr>"

text \<open>
  Three calls that race for the lock before any token is cached, and a schedule that
  lets each of them pass the first check before one of them fetches.
\<close>

definition racing_calls :: "call list" where
  "racing_calls =
     [Send example_request, OnRequest example_request None,
      Send (example_request\<lparr>options_auth_flows := Some [flow_a]\<rparr>)]"

definition racing_schedule :: "nat list" where
  "racing_schedule = [0, 1, 2, 1, 0, 1, 2, 0, 1, 2, 0, 2, 2]"

text \<open>
  An overriding challenge handler, as a subclass would write it: it calls
  \<^verbatim>\<open>authorize_request\<close> for another scope and accepts the challenge.
\<close>

definition accepting_handler :: "env \<Rightarrow> challenge_handler" where
  "accepting_handler env p request response =
     (case authorize_request env p request [''scope2''] [] of
        (Inl e, p1, request1) \<Rightarrow> (Inl e, p1, request1)
      | (Inr u, p1, request1) \<Rightarrow> (Inr True, p1, request1))"

section \<open>Traces of the operations\<close>

lemmas step_defs = token_stale_def acquire_def lock_def release_def set_token_def fetch_def log_def

lemmas run_defs = send_def effective_auth_flows_def on_request_def enforce_https_def
  refresh_token_def step_defs set_authorization_def count_fetch_def count_send_def forward_def
  handle_response_def on_challenge_def on_response_def on_exception_def authorize_request_def
  new_events_def

lemmas example_defs = example_token_def second_token_def expiring_token_def
  challenge_response_def plain_401_response_def example_env_def plain_env_def flow_a_def
  flow_b_def new_policy_def example_request_def ok_response_def ok_env_def
  after_first_fetch_def authorized_request_def reauthorized_def reauthorized_request_def
  racing_calls_def racing_schedule_def

lemma refresh_token_events:
  "refresh_token env p af = (r, p1) \<Longrightarrow>
     \<exists>es. trace p1 = trace p @ es \<and> count_send es = 0 \<and> count_fetch es \<le> 1
        \<and> guarded False es \<and> unguarded_writes False es = [] \<and> \<not> held_after False es"
  by (auto simp: refresh_token_def step_defs count_send_def count_fetch_def
      split: option.splits if_splits bool.splits sum.splits prod.splits)

lemma refresh_token_error:
  "refresh_token env p af = (Inl e, p1) \<Longrightarrow> \<exists>s. e = CredentialError s"
  by (auto simp: refresh_token_def step_defs
      split: option.splits if_splits bool.splits sum.splits prod.splits)

lemma refresh_token_some:
  "refresh_token env p af = (Inr u, p1) \<Longrightarrow> self_token p1 \<noteq> None"
  by (auto simp: refresh_token_def step_defs
      split: option.splits if_splits bool.splits sum.splits prod.splits)

lemma on_request_events:
  assumes "on_request env p request af = (r, p1, request1)"
  shows "\<exists>es. trace p1 = trace p @ es \<and> count_send es = 0 \<and> count_fetch es \<le> 1
        \<and> guarded False es \<and> unguarded_writes False es = [] \<and> \<not> held_after False es"
proof (cases "af = Some [] \<or> \<not> secure_transport request")
  case True
  with assms have "p1 = p"
    by (auto simp: on_request_def enforce_https_def split: option.splits list.splits)
  then show ?thesis by (simp add: count_send_def count_fetch_def)
next
  case False
  obtain r' p' where rt: "refresh_token env p af = (r', p')"
    by (cases "refresh_token env p af")
  with False assms have "p1 = p'"
    by (auto simp: on_request_def enforce_https_def
        split: option.splits list.splits sum.splits)
  with refresh_token_events [OF rt] show ?thesis by simp
qed

lemma forward_events:
  "forward env p request = (r, p1) \<Longrightarrow> p1 = log (NextSend request) p"
  by (auto simp: forward_def on_exception_def on_response_def split: sum.splits)

lemma forward_result:
  "next_send env (count_send (trace p)) request = Inr response \<Longrightarrow>
     forward env p request = (Inr response, log (NextSend request) p)"
  by (simp add: forward_def on_response_def)

lemma send_unfold:
  assumes "on_request env p (request\<lparr>options_auth_flows := None\<rparr>)
             (effective_auth_flows p request) = (Inr (), p1, request1)"
    and "next_send env (count_send (trace p1)) request1 = Inr response"
  shows "send env handler p request =
           handle_response env handler (log (NextSend request1) p1) request1 response"
  using assms by (simp add: send_def forward_result)

lemma handle_response_sends:
  assumes ok: "handler_ok handler"
    and h: "handle_response env handler p request response = (r, p', request')"
  shows "\<exists>es. trace p' = trace p @ es \<and> count_send es \<le> 1"
proof -
  let ?q = "set_token None p"
  obtain hr p2 request2 where hh: "handler ?q request response = (hr, p2, request2)"
    by (cases "handler ?q request response")
  from ok obtain hs where hs: "trace p2 = trace ?q @ hs" "count_send hs = 0"
    using hh unfolding handler_ok_def by (metis fst_conv snd_conv)
  have q: "trace ?q = trace p @ [SetToken None]"
    by (simp add: set_token_def log_def)
  have "p' = p \<or> p' = ?q \<or> p' = p2 \<or> p' = log (NextSend request2) p2"
    using h hh
    by (auto simp: handle_response_def forward_def on_exception_def on_response_def
        split: if_splits sum.splits bool.splits)
  then show ?thesis using q hs by (auto simp: log_def count_send_def)
qed

lemma authorize_request_events:
  "\<exists>es. trace (fst (snd (authorize_request env p request scopes kwargs))) = trace p @ es
      \<and> count_send es = 0 \<and> guarded False es \<and> unguarded_writes False es = []
      \<and> \<not> held_after False es"
  by (auto simp: authorize_request_def step_defs set_authorization_def count_send_def
      split: sum.splits)

lemma on_challenge_ok: "handler_ok on_challenge"
  by (simp add: handler_ok_def on_challenge_def count_send_def)

lemma accepting_handler_ok: "handler_ok (accepting_handler env)"
  unfolding handler_ok_def
proof (intro allI)
  fix p request response
  have "fst (snd (accepting_handler env p request response))
          = fst (snd (authorize_request env p request [''scope2''] []))"
    by (simp add: accepting_handler_def split: prod.splits sum.splits)
  with authorize_request_events [of env p request "[''scope2'']" "[]"]
  show "\<exists>es. trace (fst (snd (accepting_handler env p request response))) = trace p @ es
          \<and> count_send es = 0"
    by auto
qed

lemma count_fetch_append: "count_fetch (xs @ ys) = count_fetch xs + count_fetch ys"
  by (simp add: count_fetch_def)

lemma fetched_append: "fetched (xs @ ys) = fetched xs @ fetched ys"
  by (induction xs rule: fetched.induct) simp_all

lemma unguarded_writes_append:
  "unguarded_writes h (xs @ ys) = unguarded_writes h xs @ unguarded_writes (held_after h xs) ys"
  by (induction h xs rule: unguarded_writes.induct) simp_all

lemma send_base_events:
  "\<exists>tl. trace (fst (snd (send env on_challenge p request)))
          = trace (fst (snd (on_request env p (request\<lparr>options_auth_flows := None\<rparr>)
                (effective_auth_flows p request)))) @ tl
      \<and> count_fetch tl = 0 \<and> set (unguarded_writes False tl) \<subseteq> {None}"
  by (auto simp: send_def forward_def handle_response_def on_challenge_def on_exception_def
      on_response_def set_token_def log_def count_fetch_def split: prod.splits sum.splits)

lemma send_extends_on_request:
  assumes ok: "handler_ok handler"
  shows "\<exists>es. trace (fst (snd (send env handler p request)))
          = trace (fst (snd (on_request env p (request\<lparr>options_auth_flows := None\<rparr>)
                (effective_auth_flows p request)))) @ es"
proof -
  obtain r0 q0 rq0 where req: "on_request env p (request\<lparr>options_auth_flows := None\<rparr>)
      (effective_auth_flows p request) = (r0, q0, rq0)"
    using prod_cases3 by blast
  show ?thesis
  proof (cases r0)
    case (Inl e)
    with req show ?thesis by (simp add: send_def)
  next
    case (Inr u)
    obtain fr q1 where fw: "forward env q0 rq0 = (fr, q1)" by (cases "forward env q0 rq0")
    have q1: "trace q1 = trace q0 @ [NextSend rq0]"
      using forward_events [OF fw] by (simp add: log_def)
    show ?thesis
    proof (cases fr)
      case (Inl e)
      with Inr req fw q1 show ?thesis by (simp add: send_def)
    next
      case (Inr response)
      obtain r p' request' where h: "handle_response env handler q1 rq0 response = (r, p', request')"
        using prod_cases3 by blast
      from handle_response_sends [OF ok h] obtain hs where "trace p' = trace q1 @ hs" by blast
      moreover have "send env handler p request = (r, p', request')"
        using \<open>r0 = Inr u\<close> Inr req fw h by (simp add: send_def)
      ultimately show ?thesis using q1 req by simp
    qed
  qed
qed

lemma on_request_first_fetch:
  assumes "self_token p = None" and "secure_transport request" and "af \<noteq> Some []"
  shows "\<exists>rest. fetched (new_events p (fst (snd (on_request env p request af))))
           = (self_scopes p, request_options af) # rest"
  using assms
  by (cases af)
    (auto simp: on_request_def enforce_https_def refresh_token_def step_defs new_events_def
      set_authorization_def split: list.splits sum.splits)

section \<open>Interleaved runs\<close>

lemmas conc_defs = authorized_def attach_def begin_on_request_def step_def initial_def

lemma always_valid_fresh: "always_valid env t \<Longrightarrow> \<not> need_new_token (Some t) (time_time env n)"
  unfolding always_valid_def need_new_token_def
  by (auto split: option.splits dest!: spec [of _ n])

lemma count_fetch_log:
  "count_fetch (trace (log e p)) = count_fetch (trace p) + (if is_fetch e then 1 else 0)"
  by (simp add: log_def count_fetch_def)

lemma authorized_quiet:
  "authorized k p request = (p1, t) \<Longrightarrow>
     count_fetch (trace p1) = count_fetch (trace p) \<and> self_token p1 = self_token p
     \<and> \<not> is_fetching t \<and> (\<exists>es. trace p1 = trace p @ es)"
  by (auto simp: authorized_def log_def count_fetch_def split: kind.splits)

lemma attach_quiet:
  "attach k p request = (p1, t) \<Longrightarrow>
     count_fetch (trace p1) = count_fetch (trace p) \<and> self_token p1 = self_token p
     \<and> \<not> is_fetching t \<and> (\<exists>es. trace p1 = trace p @ es)"
  by (auto simp: attach_def split: sum.splits dest: authorized_quiet)

lemma begin_on_request_quiet:
  "begin_on_request env k p request af = (p1, t) \<Longrightarrow>
     count_fetch (trace p1) = count_fetch (trace p) \<and> self_token p1 = self_token p
     \<and> \<not> is_fetching t \<and> (\<exists>es. trace p1 = trace p @ es)"
  unfolding begin_on_request_def
  by (auto simp: enforce_https_def token_stale_def lock_def log_def count_fetch_def
      split: option.splits list.splits sum.splits if_splits bool.splits
      dest!: authorized_quiet attach_quiet)


lemma token_stale_facts:
  "token_stale env p = (b, p1) \<Longrightarrow>
     trace p1 = trace p \<and> self_token p1 = self_token p
     \<and> (\<forall>t. self_token p = Some t \<and> always_valid env t \<longrightarrow> \<not> b)"
  by (auto simp: token_stale_def always_valid_fresh split: option.splits)

lemma task_step_cases:
  assumes valid: "issues_valid_tokens env" and ok: "never_401 env"
    and st: "task_step env i p h t = (p', h', t')"
    and own: "is_fetching t \<longleftrightarrow> h = Some i"
  shows "(count_fetch (trace p') = count_fetch (trace p) \<and> self_token p' = self_token p
            \<and> h' = h \<and> \<not> is_fetching t' \<and> \<not> is_fetching t)
       \<or> (h = None \<and> h' = Some i \<and> is_fetching t' \<and> \<not> is_fetching t
            \<and> count_fetch (trace p') = Suc (count_fetch (trace p))
            \<and> \<not> (\<exists>tk. self_token p = Some tk \<and> always_valid env tk))
       \<or> (is_fetching t \<and> h' = None \<and> \<not> is_fetching t'
            \<and> count_fetch (trace p') = count_fetch (trace p)
            \<and> (\<exists>tk. self_token p' = Some tk \<and> always_valid env tk))"
proof (cases t)
  case (Start c)
  show ?thesis
  proof (cases c)
    case (OnRequest request af)
    with Start st begin_on_request_quiet show ?thesis
      by (auto split: prod.splits)
  next
    case (Send request)
    with Start st begin_on_request_quiet show ?thesis
      by (auto split: prod.splits)
  qed
next
  case (WaitLock k request af)
  show ?thesis
  proof (cases h)
    case (Some j)
    with WaitLock st show ?thesis by auto
  next
    case None
    obtain b p2 where ts: "token_stale env (log AcquireLock p) = (b, p2)"
      by (cases "token_stale env (log AcquireLock p)")
    from token_stale_facts [OF ts] have
      f: "trace p2 = trace p @ [AcquireLock]" "self_token p2 = self_token p"
        "\<forall>t. self_token p = Some t \<and> always_valid env t \<longrightarrow> \<not> b"
      by (simp_all add: log_def)
    show ?thesis
    proof (cases b)
      case True
      with WaitLock None st ts f show ?thesis
        by (auto simp: log_def count_fetch_def)
    next
      case False
      obtain p3 t3 where at: "attach k (release p2) request = (p3, t3)"
        by (cases "attach k (release p2) request")
      from attach_quiet [OF at] f have
        "count_fetch (trace p3) = count_fetch (trace p)" "self_token p3 = self_token p"
        "\<not> is_fetching t3"
        by (simp_all add: release_def log_def count_fetch_def)
      with WaitLock None st ts False at show ?thesis by auto
    qed
  qed
next
  case (Fetching k request n scopes opts)
  from valid obtain tk where tk: "get_token_info env n scopes opts = Inr tk" "always_valid env tk"
    unfolding issues_valid_tokens_def by blast
  obtain p1 t1 where at: "attach k (release (set_token (Some tk) p)) request = (p1, t1)"
    by (cases "attach k (release (set_token (Some tk) p)) request")
  from attach_quiet [OF at] have
    "count_fetch (trace p1) = count_fetch (trace p)" "self_token p1 = Some tk" "\<not> is_fetching t1"
    by (simp_all add: release_def set_token_def log_def count_fetch_def)
  with Fetching st tk at show ?thesis by auto
next
  case (Forwarding request n)
  show ?thesis
  proof (cases "next_send env n request")
    case (Inl e)
    with Forwarding st show ?thesis by (auto simp: on_exception_def)
  next
    case (Inr response)
    with ok have "status_code response \<noteq> 401" unfolding never_401_def by blast
    with Forwarding st Inr show ?thesis
      by (auto simp: handle_response_def on_response_def)
  qed
next
  case (Done r request)
  with st show ?thesis by auto
qed

lemma step_fetch_inv:
  assumes valid: "issues_valid_tokens env" and ok: "never_401 env"
    and inv: "fetch_inv env n0 s"
  shows "fetch_inv env n0 (step env i s)"
proof (cases "i < length (tasks s)")
  case False
  with inv show ?thesis by (simp add: step_def)
next
  case True
  obtain p' h' t' where st: "task_step env i (pol s) (holder s) (tasks s ! i) = (p', h', t')"
    using prod_cases3 by blast
  have s': "step env i s = \<lparr>pol = p', holder = h', tasks = (tasks s)[i := t']\<rparr>"
    using True st by (simp add: step_def)
  from inv True have own: "is_fetching (tasks s ! i) \<longleftrightarrow> holder s = Some i"
    unfolding fetch_inv_def by blast
  from inv have others: "\<And>j. j < length (tasks s) \<Longrightarrow> is_fetching (tasks s ! j) \<longleftrightarrow> holder s = Some j"
    unfolding fetch_inv_def by blast
  from inv have cnt: "n0 \<le> count_fetch (trace (pol s))" "count_fetch (trace (pol s)) \<le> Suc n0"
      "count_fetch (trace (pol s)) = Suc n0 \<Longrightarrow>
         holder s \<noteq> None \<or> (\<exists>t. self_token (pol s) = Some t \<and> always_valid env t)"
    unfolding fetch_inv_def by blast+
  from task_step_cases [OF valid ok st own]
  consider
    (quiet) "count_fetch (trace p') = count_fetch (trace (pol s))" "self_token p' = self_token (pol s)"
        "h' = holder s" "\<not> is_fetching t'" "\<not> is_fetching (tasks s ! i)"
  | (starts) "holder s = None" "h' = Some i" "is_fetching t'" "\<not> is_fetching (tasks s ! i)"
        "count_fetch (trace p') = Suc (count_fetch (trace (pol s)))"
        "\<not> (\<exists>tk. self_token (pol s) = Some tk \<and> always_valid env tk)"
  | (ends) "is_fetching (tasks s ! i)" "h' = None" "\<not> is_fetching t'"
        "count_fetch (trace p') = count_fetch (trace (pol s))"
        "\<exists>tk. self_token p' = Some tk \<and> always_valid env tk"
    by (elim disjE conjE) blast+
  then show ?thesis
  proof cases
    case quiet
    have "\<And>j. j < length (tasks s) \<Longrightarrow> is_fetching ((tasks s)[i := t'] ! j) \<longleftrightarrow> h' = Some j"
      using quiet others own True by (auto simp: nth_list_update)
    then show ?thesis unfolding s' fetch_inv_def using quiet cnt by auto
  next
    case starts
    have "\<And>j. j < length (tasks s) \<Longrightarrow> is_fetching ((tasks s)[i := t'] ! j) \<longleftrightarrow> h' = Some j"
      using starts others True by (auto simp: nth_list_update)
    moreover have "count_fetch (trace (pol s)) = n0"
      using starts cnt by (cases "count_fetch (trace (pol s)) = Suc n0") auto
    ultimately show ?thesis unfolding s' fetch_inv_def using starts by auto
  next
    case ends
    from ends own have hi: "holder s = Some i" by simp
    have "\<And>j. j < length (tasks s) \<Longrightarrow> is_fetching ((tasks s)[i := t'] ! j) \<longleftrightarrow> h' = Some j"
      using ends others hi True by (auto simp: nth_list_update)
    then show ?thesis unfolding s' fetch_inv_def using ends cnt by auto
  qed
qed

lemma run_fetch_inv:
  "issues_valid_tokens env \<Longrightarrow> never_401 env \<Longrightarrow> fetch_inv env n0 s \<Longrightarrow>
     fetch_inv env n0 (run env schedule s)"
  by (induction schedule arbitrary: s) (simp_all add: step_fetch_inv)

lemma initial_fetch_inv: "fetch_inv env (count_fetch (trace p)) (initial p cs)"
  by (simp add: fetch_inv_def initial_def)

lemma task_step_trace:
  "task_step env i p h t = (p', h', t') \<Longrightarrow> \<exists>es. trace p' = trace p @ es"
proof (cases t)
  case (Start c)
  assume "task_step env i p h t = (p', h', t')"
  with Start begin_on_request_quiet show ?thesis
    by (cases c) (auto split: prod.splits)
next
  case (WaitLock k request af)
  assume st: "task_step env i p h t = (p', h', t')"
  obtain b p2 where ts: "token_stale env (log AcquireLock p) = (b, p2)"
    by (cases "token_stale env (log AcquireLock p)")
  from token_stale_facts [OF ts] have f: "trace p2 = trace p @ [AcquireLock]"
    by (simp add: log_def)
  obtain p3 t3 where at: "attach k (release p2) request = (p3, t3)"
    by (cases "attach k (release p2) request")
  from attach_quiet [OF at] f obtain es where "trace p3 = trace p @ es"
    by (auto simp: release_def log_def)
  with WaitLock st ts f at show ?thesis
    by (cases h; cases b) (auto simp: log_def)
next
  case (Fetching k request n scopes opts)
  assume st: "task_step env i p h t = (p', h', t')"
  show ?thesis
  proof (cases "get_token_info env n scopes opts")
    case (Inl e)
    with Fetching st show ?thesis by (auto simp: release_def log_def)
  next
    case (Inr tk)
    obtain p1 t1 where at: "attach k (release (set_token (Some tk) p)) request = (p1, t1)"
      by (cases "attach k (release (set_token (Some tk) p)) request")
    from attach_quiet [OF at] obtain es where "trace p1 = trace p @ es"
      by (auto simp: release_def set_token_def log_def)
    with Fetching st Inr at show ?thesis by auto
  qed
next
  case (Forwarding request n)
  assume "task_step env i p h t = (p', h', t')"
  with Forwarding show ?thesis
    by (auto simp: handle_response_def on_challenge_def on_response_def on_exception_def
        set_token_def log_def split: sum.splits if_splits)
next
  case (Done r request)
  assume "task_step env i p h t = (p', h', t')"
  with Done show ?thesis by auto
qed

lemma step_trace: "\<exists>es. trace (pol (step env i s)) = trace (pol s) @ es"
proof (cases "i < length (tasks s)")
  case False
  then show ?thesis by (simp add: step_def)
next
  case True
  obtain p' h' t' where st: "task_step env i (pol s) (holder s) (tasks s ! i) = (p', h', t')"
    using prod_cases3 by blast
  from task_step_trace [OF st] True st show ?thesis by (simp add: step_def)
qed

lemma run_trace: "\<exists>es. trace (pol (run env schedule s)) = trace (pol s) @ es"
proof (induction schedule arbitrary: s)
  case Nil
  then show ?case by simp
next
  case (Cons i schedule)
  from step_trace [of env i s] obtain es where "trace (pol (step env i s)) = trace (pol s) @ es"
    by blast
  moreover from Cons [of "step env i s"] obtain es' where
    "trace (pol (run env schedule (step env i s))) = trace (pol (step env i s)) @ es'" by blast
  ultimately show ?case by simp
qed

lemma example_tokens_valid:
  "always_valid ok_env example_token" "always_valid ok_env second_token"
  "always_valid plain_env example_token" "always_valid plain_env second_token"
  by (simp_all add: always_valid_def example_defs)

lemma ok_env_valid: "issues_valid_tokens ok_env"
  unfolding issues_valid_tokens_def
proof (intro allI)
  fix n scopes opts
  show "\<exists>t. get_token_info ok_env n scopes opts = Inr t \<and> always_valid ok_env t"
    using example_tokens_valid by (cases "n = 0") (simp_all add: ok_env_def example_env_def)
qed

lemma plain_env_valid: "issues_valid_tokens plain_env"
  unfolding issues_valid_tokens_def
proof (intro allI)
  fix n scopes opts
  show "\<exists>t. get_token_info plain_env n scopes opts = Inr t \<and> always_valid plain_env t"
    using example_tokens_valid by (cases "n = 0") (simp_all add: plain_env_def example_env_def)
qed

lemma ok_env_never_401: "never_401 ok_env"
  by (simp add: never_401_def ok_env_def ok_response_def)

text \<open>
  A system of one task, stepped until the task has finished, ends as the functions
  \<open>on_request\<close> and \<open>send\<close> say.
\<close>

lemma step_single:
  "step env 0 \<lparr>pol = p, holder = h, tasks = [t]\<rparr> =
     (case task_step env 0 p h t of (p1, h1, t1) \<Rightarrow> \<lparr>pol = p1, holder = h1, tasks = [t1]\<rparr>)"
  by (simp add: step_def)

lemma solo_on_request:
  "run env [0, 0, 0] (initial p [OnRequest request auth_flows]) =
     (case on_request env p request auth_flows of
        (Inl e, p1, request1) \<Rightarrow> \<lparr>pol = p1, holder = None, tasks = [Done (Inl e) request1]\<rparr>
      | (Inr u, p1, request1) \<Rightarrow> \<lparr>pol = p1, holder = None, tasks = [Done (Inr None) request1]\<rparr>)"
proof (cases "auth_flows = Some [] \<or> \<not> secure_transport request")
  case True
  then show ?thesis
    by (auto simp: initial_def step_single begin_on_request_def authorized_def on_request_def
        enforce_https_def split: option.splits list.splits)
next
  case False
  then have on: "on_request env p request auth_flows =
      (case refresh_token env p auth_flows of
         (Inl e, p1) \<Rightarrow> (Inl e, p1, request)
       | (Inr u1, p1) \<Rightarrow>
           (case set_authorization p1 request of
              Inl e \<Rightarrow> (Inl e, p1, request)
            | Inr request1 \<Rightarrow> (Inr (), p1, request1)))"
    by (auto simp: on_request_def enforce_https_def split: option.splits list.splits)
  from False have beg: "begin_on_request env ByOnRequest p request auth_flows =
      (case token_stale env p of
         (False, p1) \<Rightarrow> attach ByOnRequest p1 request
       | (True, p1) \<Rightarrow> (lock p1, WaitLock ByOnRequest request auth_flows))"
    by (auto simp: begin_on_request_def enforce_https_def split: option.splits list.splits)
  obtain b p1 where s1: "token_stale env p = (b, p1)" by (cases "token_stale env p")
  show ?thesis
  proof (cases b)
    case False
    with s1 show ?thesis
      by (simp add: on beg initial_def step_single refresh_token_def attach_def authorized_def
          split: sum.splits)
  next
    case True
    obtain b2 p2 where s2: "token_stale env (log AcquireLock (lock p1)) = (b2, p2)"
      by (cases "token_stale env (log AcquireLock (lock p1))")
    show ?thesis
    proof (cases b2)
      case False
      with True s1 s2 show ?thesis
        by (simp add: on beg initial_def step_single refresh_token_def acquire_def attach_def
            authorized_def split: sum.splits)
    next
      case b2: True
      show ?thesis
      proof (cases "get_token_info env (count_fetch (trace p2)) (self_scopes p2)
          (request_options auth_flows)")
        case (Inl e)
        with True b2 s1 s2 show ?thesis
          by (simp add: on beg initial_def step_single refresh_token_def acquire_def fetch_def)
      next
        case (Inr t)
        with True b2 s1 s2 show ?thesis
          by (simp add: on beg initial_def step_single refresh_token_def acquire_def fetch_def
              attach_def authorized_def split: sum.splits)
      qed
    qed
  qed
qed

lemma run_done: "run env schedule (single q (Done r rq)) = single q (Done r rq)"
  by (induction schedule) (simp_all add: step_def single_def)

lemma run_authorized:
  "run env (0 # schedule) (case authorized BySend q rq of (q', t') \<Rightarrow> single q' t')
     = outcome (send_rest env q rq)"
proof (cases "next_send env (count_send (trace q)) rq")
  case (Inl e)
  then show ?thesis
    using run_done [of env schedule "log (NextSend rq) q" "Inl (NextPolicyError e)" rq]
    by (simp add: authorized_def single_def step_def send_rest_def forward_def on_exception_def)
next
  case (Inr response)
  obtain r3 p3 rq3 where h: "handle_response env on_challenge (log (NextSend rq) q) rq response
      = (r3, p3, rq3)"
    using prod_cases3 by blast
  show ?thesis
  proof (cases r3)
    case (Inl e)
    with Inr h show ?thesis
      using run_done [of env schedule p3 "Inl e" rq3]
      by (simp add: authorized_def single_def step_def send_rest_def forward_def on_response_def)
  next
    case r: (Inr response3)
    with Inr h show ?thesis
      using run_done [of env schedule p3 "Inr (Some response3)" rq3]
      by (simp add: authorized_def single_def step_def send_rest_def forward_def on_response_def)
  qed
qed

lemma run_attach:
  "run env (0 # schedule) (case attach BySend q rq of (q', t') \<Rightarrow> single q' t')
     = outcome (case set_authorization q rq of
                  Inl e \<Rightarrow> (Inl e, q, rq)
                | Inr rq1 \<Rightarrow> send_rest env q rq1)"
proof (cases "set_authorization q rq")
  case (Inl e)
  then show ?thesis
    using run_done [of env "0 # schedule" q "Inl e" rq] by (simp add: attach_def)
next
  case (Inr rq1)
  then show ?thesis
    using run_authorized [of env schedule q rq1] by (simp add: attach_def)
qed


lemma send_by_rest:
  "send env on_challenge p request =
     (case on_request env p (request\<lparr>options_auth_flows := None\<rparr>)
             (effective_auth_flows p request) of
        (Inl e, p1, request1) \<Rightarrow> (Inl e, p1, request1)
      | (Inr u, p1, request1) \<Rightarrow> send_rest env p1 request1)"
  by (simp add: send_def send_rest_def split: prod.splits sum.splits)



lemma start_send_step:
  "step env 0 (initial p [Send request]) =
     (case begin_on_request env BySend p (request\<lparr>options_auth_flows := None\<rparr>)
             (effective_auth_flows p request) of
        (q, t) \<Rightarrow> single q t)"
  by (simp add: initial_def step_def single_def split: prod.splits)

lemma wait_step:
  "step env 0 (single q (WaitLock k rq af)) =
     (case token_stale env (log AcquireLock q) of
        (False, p2) \<Rightarrow> (case attach k (release p2) rq of (q', t') \<Rightarrow> single q' t')
      | (True, p2) \<Rightarrow>
          \<lparr>pol = log (GetTokenInfo (self_scopes p2) (request_options af)) p2, holder = Some 0,
           tasks = [Fetching k rq (count_fetch (trace p2)) (self_scopes p2)
                      (request_options af)]\<rparr>)"
  by (simp add: step_def single_def split: prod.splits bool.splits)

lemma fetching_step:
  "step env 0 \<lparr>pol = q, holder = Some 0, tasks = [Fetching k rq n scopes opts]\<rparr> =
     (case get_token_info env n scopes opts of
        Inl e \<Rightarrow> single (release q) (Done (Inl (CredentialError e)) rq)
      | Inr t \<Rightarrow>
          (case attach k (release (set_token (Some t) q)) rq of (q', t') \<Rightarrow> single q' t'))"
  by (simp add: step_def single_def split: prod.splits sum.splits)

lemma solo_send:
  "run env [0, 0, 0, 0] (initial p [Send request]) = outcome (send env on_challenge p request)"
proof -
  let ?rq = "request\<lparr>options_auth_flows := None\<rparr>"
  let ?af = "effective_auth_flows p request"
  let ?s0 = "initial p [Send request]"
  note e0 = start_send_step [of env p request]
  show ?thesis
  proof (cases "?af = Some []")
    case True
    then have "on_request env p ?rq ?af = (Inr (), p, ?rq)" by (simp add: on_request_def)
    then have sq: "send env on_challenge p request = send_rest env p ?rq"
      by (simp add: send_by_rest)
    from True have e1: "step env 0 ?s0 = (case authorized BySend p ?rq of (q, t) \<Rightarrow> single q t)"
      unfolding e0 by (simp add: begin_on_request_def)
    have "run env [0, 0, 0, 0] ?s0
        = run env [0, 0, 0] (case authorized BySend p ?rq of (q, t) \<Rightarrow> single q t)"
      by (simp only: run.simps e1)
    also have "\<dots> = outcome (send_rest env p ?rq)" by (rule run_authorized)
    finally show ?thesis by (simp only: sq)
  next
    case nonempty: False
    show ?thesis
    proof (cases "secure_transport request")
      case False
      with nonempty have "on_request env p ?rq ?af = (Inl ServiceRequestError, p, ?rq)"
        by (auto simp: on_request_def enforce_https_def split: option.splits list.splits)
      then have sq: "send env on_challenge p request = (Inl ServiceRequestError, p, ?rq)"
        by (simp add: send_by_rest)
      from False nonempty have e1: "step env 0 ?s0 = single p (Done (Inl ServiceRequestError) ?rq)"
        unfolding e0
        by (auto simp: begin_on_request_def enforce_https_def split: option.splits list.splits)
      have "run env [0, 0, 0, 0] ?s0
          = run env [0, 0, 0] (single p (Done (Inl ServiceRequestError) ?rq))"
        by (simp only: run.simps e1)
      also have "\<dots> = single p (Done (Inl ServiceRequestError) ?rq)" by (rule run_done)
      finally show ?thesis by (simp only: sq outcome.simps)
    next
      case True
      with nonempty have on: "on_request env p ?rq ?af =
          (case refresh_token env p ?af of
             (Inl e, p1) \<Rightarrow> (Inl e, p1, ?rq)
           | (Inr u1, p1) \<Rightarrow>
               (case set_authorization p1 ?rq of
                  Inl e \<Rightarrow> (Inl e, p1, ?rq)
                | Inr request1 \<Rightarrow> (Inr (), p1, request1)))"
        by (auto simp: on_request_def enforce_https_def split: option.splits list.splits)
      from True nonempty have beg: "begin_on_request env BySend p ?rq ?af =
          (case token_stale env p of
             (False, p1) \<Rightarrow> attach BySend p1 ?rq
           | (True, p1) \<Rightarrow> (lock p1, WaitLock BySend ?rq ?af))"
        by (auto simp: begin_on_request_def enforce_https_def split: option.splits list.splits)
      have seq: "refresh_token env p ?af = (Inr (), q) \<Longrightarrow>
          outcome (case set_authorization q ?rq of
                  Inl e \<Rightarrow> (Inl e, q, ?rq)
                | Inr rq1 \<Rightarrow> send_rest env q rq1) =
          outcome (send env on_challenge p request)" for q
        by (simp add: send_by_rest on split: sum.splits)
      obtain b p1 where s1: "token_stale env p = (b, p1)" by (cases "token_stale env p")
      show ?thesis
      proof (cases b)
        case False
        with s1 have rt: "refresh_token env p ?af = (Inr (), p1)"
          by (simp add: refresh_token_def)
        from s1 False have e1: "step env 0 ?s0 = (case attach BySend p1 ?rq of (q, t) \<Rightarrow> single q t)"
          unfolding e0 beg by simp
        have "run env [0, 0, 0, 0] ?s0
            = run env [0, 0, 0] (case attach BySend p1 ?rq of (q, t) \<Rightarrow> single q t)"
          by (simp only: run.simps e1)
        also have "\<dots> = outcome (case set_authorization p1 ?rq of
                  Inl e \<Rightarrow> (Inl e, p1, ?rq)
                | Inr rq1 \<Rightarrow> send_rest env p1 rq1)" by (rule run_attach)
        finally show ?thesis by (simp only: seq [OF rt])
      next
        case stale: True
        from s1 stale have e1: "step env 0 ?s0 = single (lock p1) (WaitLock BySend ?rq ?af)"
          unfolding e0 beg by simp
        obtain b2 p2 where s2: "token_stale env (log AcquireLock (lock p1)) = (b2, p2)"
          by (cases "token_stale env (log AcquireLock (lock p1))")
        show ?thesis
        proof (cases b2)
          case False
          with s1 s2 stale have rt: "refresh_token env p ?af = (Inr (), release p2)"
            by (simp add: refresh_token_def acquire_def)
          from s2 False have e2: "step env 0 (single (lock p1) (WaitLock BySend ?rq ?af))
              = (case attach BySend (release p2) ?rq of (q, t) \<Rightarrow> single q t)"
            unfolding wait_step by simp
          have "run env [0, 0, 0, 0] ?s0
              = run env [0, 0] (case attach BySend (release p2) ?rq of (q, t) \<Rightarrow> single q t)"
            by (simp only: run.simps e1 e2)
          also have "\<dots> = outcome (case set_authorization (release p2) ?rq of
                  Inl e \<Rightarrow> (Inl e, release p2, ?rq)
                | Inr rq1 \<Rightarrow> send_rest env (release p2) rq1)" by (rule run_attach)
          finally show ?thesis by (simp only: seq [OF rt])
        next
          case b2: True
          let ?g = "log (GetTokenInfo (self_scopes p2) (request_options ?af)) p2"
          let ?f = "\<lparr>pol = ?g, holder = Some 0,
             tasks = [Fetching BySend ?rq (count_fetch (trace p2)) (self_scopes p2)
                        (request_options ?af)]\<rparr>"
          from s2 b2 have e2: "step env 0 (single (lock p1) (WaitLock BySend ?rq ?af)) = ?f"
            unfolding wait_step by simp
          show ?thesis
          proof (cases "get_token_info env (count_fetch (trace p2)) (self_scopes p2)
              (request_options ?af)")
            case (Inl e)
            with s1 s2 stale b2 have "refresh_token env p ?af
                = (Inl (CredentialError e), release ?g)"
              by (simp add: refresh_token_def acquire_def fetch_def)
            then have sq: "send env on_challenge p request
                = (Inl (CredentialError e), release ?g, ?rq)"
              by (simp add: send_by_rest on)
            from Inl have e3: "step env 0 ?f
                = single (release ?g) (Done (Inl (CredentialError e)) ?rq)"
              unfolding fetching_step by simp
            have "run env [0, 0, 0, 0] ?s0
                = run env [0] (single (release ?g) (Done (Inl (CredentialError e)) ?rq))"
              by (simp only: run.simps e1 e2 e3)
            also have "\<dots> = single (release ?g) (Done (Inl (CredentialError e)) ?rq)"
              by (rule run_done)
            finally show ?thesis by (simp only: sq outcome.simps)
          next
            case (Inr t)
            let ?q = "release (set_token (Some t) ?g)"
            from Inr s1 s2 stale b2 have rt: "refresh_token env p ?af = (Inr (), ?q)"
              by (simp add: refresh_token_def acquire_def fetch_def)
            from Inr have e3: "step env 0 ?f
                = (case attach BySend ?q ?rq of (q, t) \<Rightarrow> single q t)"
              unfolding fetching_step by simp
            have "run env [0, 0, 0, 0] ?s0
                = run env [0] (case attach BySend ?q ?rq of (q, t) \<Rightarrow> single q t)"
              by (simp only: run.simps e1 e2 e3)
            also have "\<dots> = outcome (case set_authorization ?q ?rq of
                  Inl e \<Rightarrow> (Inl e, ?q, ?rq)
                | Inr rq1 \<Rightarrow> send_rest env ?q rq1)" by (rule run_attach)
            finally show ?thesis by (simp only: seq [OF rt])
          qed
        qed
      qed
    qed
  qed
qed

section \<open>Claims about the refresh decision\<close>

text \<open>
  Claim C1. For every cached token and clock reading, \<^verbatim>\<open>_need_new_token\<close> is true exactly
  when no token is cached, or the token's \<^verbatim>\<open>refresh_on\<close> is set and is at or before the
  reading, or fewer than 300 seconds remain until its \<^verbatim>\<open>expires_on\<close>; and the condition
  evaluated by \<^verbatim>\<open>on_request\<close> (\<^verbatim>\<open>self._token is None or self._need_new_token\<close>) is true in
  exactly the same cases, at the reading the policy takes.
\<close>

theorem need_new_token_iff:
  "(need_new_token tok now \<longleftrightarrow>
      tok = None
      \<or> (\<exists>t r. tok = Some t \<and> refresh_on t = Some r \<and> real_of_int r \<le> now)
      \<or> (\<exists>t. tok = Some t \<and> real_of_int (expires_on t) - now < 300))
   \<and> (fst (token_stale env p) \<longleftrightarrow>
      self_token p = None
      \<or> (\<exists>t r. self_token p = Some t \<and> refresh_on t = Some r
            \<and> real_of_int r \<le> time_time env (clock_reads p))
      \<or> (\<exists>t. self_token p = Some t
            \<and> real_of_int (expires_on t) - time_time env (clock_reads p) < 300))"
  by (auto simp: need_new_token_def token_stale_def split: option.splits)

theorem need_new_token_iff_witness:
  "need_new_token (Some expiring_token) 1000
   \<and> \<not> need_new_token (Some example_token) 1000
   \<and> need_new_token (Some second_token) 5500
   \<and> fst (token_stale example_env (new_policy\<lparr>self_token := Some expiring_token\<rparr>))
   \<and> fst (token_stale example_env new_policy)"
  using need_new_token_iff [of "Some expiring_token" 1000 example_env
      "new_policy\<lparr>self_token := Some expiring_token\<rparr>"]
    need_new_token_iff [of "Some example_token" 1000 example_env new_policy]
    need_new_token_iff [of "Some second_token" 5500 example_env new_policy]
  by (simp add: example_defs)

section \<open>Claims about authorization injection\<close>

text \<open>
  Claim C2. When the effective \<^verbatim>\<open>auth_flows\<close> is an explicitly empty list, \<^verbatim>\<open>on_request\<close>
  returns without doing anything: the policy is as it was (so the trace has no new event,
  in particular no call of the credential, and the cached token is unchanged) and the
  request is as it was (so no \<^verbatim>\<open>Authorization\<close> header is set).
\<close>

theorem on_request_empty_auth_flows:
  "on_request env p request (Some []) = (Inr (), p, request)
   \<and> new_events p (fst (snd (on_request env p request (Some [])))) = []
   \<and> self_token (fst (snd (on_request env p request (Some [])))) = self_token p
   \<and> headers (snd (snd (on_request env p request (Some [])))) = headers request"
  by (simp add: on_request_def new_events_def)

theorem on_request_empty_auth_flows_witness:
  "on_request example_env new_policy (example_request\<lparr>secure_transport := False\<rparr>) (Some [])
     = (Inr (), new_policy, example_request\<lparr>secure_transport := False\<rparr>)
   \<and> headers (snd (snd (on_request example_env new_policy example_request (Some []))))
        ''Authorization'' = None"
  using on_request_empty_auth_flows [of example_env new_policy
      "example_request\<lparr>secure_transport := False\<rparr>"]
    on_request_empty_auth_flows [of example_env new_policy example_request]
  by (simp add: example_defs)

text \<open>
  Claim C3. When the effective \<^verbatim>\<open>auth_flows\<close> is not an explicitly empty list and the
  target of the request is not a secure transport, \<^verbatim>\<open>on_request\<close> raises the
  transport-security error and leaves the policy and the request as they were: no call of
  the credential, no header, the cached token unchanged.
\<close>

theorem on_request_insecure:
  assumes "auth_flows \<noteq> Some []" and "\<not> secure_transport request"
  shows "on_request env p request auth_flows = (Inl ServiceRequestError, p, request)"
  using assms
  by (auto simp: on_request_def enforce_https_def split: option.splits list.splits)

theorem on_request_insecure_witness:
  "Some [flow_a] \<noteq> Some []
   \<and> \<not> secure_transport (example_request\<lparr>secure_transport := False\<rparr>)
   \<and> on_request example_env new_policy (example_request\<lparr>secure_transport := False\<rparr>)
        (Some [flow_a])
      = (Inl ServiceRequestError, new_policy, example_request\<lparr>secure_transport := False\<rparr>)"
proof -
  have h1: "Some [flow_a] \<noteq> Some []" by simp
  have h2: "\<not> secure_transport (example_request\<lparr>secure_transport := False\<rparr>)" by simp
  show ?thesis
    using h1 h2 on_request_insecure [OF h1 h2, of example_env new_policy] by simp
qed

text \<open>
  Claim C10. \<^verbatim>\<open>on_request\<close> raises the transport-security error exactly when the effective
  \<^verbatim>\<open>auth_flows\<close> is not an explicitly empty list and the target is not a secure transport;
  with the empty list, a request to an insecure target returns without error.
\<close>

theorem on_request_raises_iff:
  "fst (on_request env p request auth_flows) = Inl ServiceRequestError
     \<longleftrightarrow> auth_flows \<noteq> Some [] \<and> \<not> secure_transport request"
proof (cases "auth_flows = Some []")
  case True
  then show ?thesis by (simp add: on_request_def)
next
  case False
  show ?thesis
  proof (cases "secure_transport request")
    case False
    with \<open>auth_flows \<noteq> Some []\<close> show ?thesis
      by (auto simp: on_request_def enforce_https_def split: option.splits list.splits)
  next
    case True
    obtain r p1 where rt: "refresh_token env p auth_flows = (r, p1)"
      by (cases "refresh_token env p auth_flows")
    show ?thesis
    proof (cases r)
      case (Inl e)
      with rt refresh_token_error obtain s where "e = CredentialError s" by blast
      with Inl rt True \<open>auth_flows \<noteq> Some []\<close> show ?thesis
        by (auto simp: on_request_def enforce_https_def split: option.splits list.splits)
    next
      case (Inr u)
      with rt refresh_token_some have "self_token p1 \<noteq> None" by blast
      with Inr rt True \<open>auth_flows \<noteq> Some []\<close> show ?thesis
        by (auto simp: on_request_def enforce_https_def set_authorization_def
            split: option.splits list.splits)
    qed
  qed
qed

theorem on_request_raises_iff_witness:
  "fst (on_request example_env new_policy (example_request\<lparr>secure_transport := False\<rparr>)
          (Some [])) \<noteq> Inl ServiceRequestError
   \<and> fst (on_request example_env new_policy (example_request\<lparr>secure_transport := False\<rparr>)
          None) = Inl ServiceRequestError
   \<and> fst (on_request example_env new_policy example_request None)
        \<noteq> Inl ServiceRequestError"
  using on_request_raises_iff [of example_env new_policy
      "example_request\<lparr>secure_transport := False\<rparr>" "Some []"]
    on_request_raises_iff [of example_env new_policy
      "example_request\<lparr>secure_transport := False\<rparr>" None]
    on_request_raises_iff [of example_env new_policy example_request None]
  by (simp add: example_defs)

text \<open>
  Claim C5. Whatever the policy holds, \<^verbatim>\<open>authorize_request\<close> takes the lock (creating it
  on first use), calls the credential once with the given scopes and with the keyword
  arguments that are token request options, and releases the lock. When the credential
  returns a token, that token replaces the cached one while the lock is held, and the
  \<^verbatim>\<open>Authorization\<close> header of the request becomes \<^verbatim>\<open>"Bearer "\<close> followed by the token's
  value. When the credential raises, the exception propagates, and neither the cached
  token nor the request changes.
\<close>

theorem authorize_request_fetches:
  "(case get_token_info env (count_fetch (trace p)) scopes
           (collect_options (option_keys env) kwargs) of
      Inr t \<Rightarrow>
        authorize_request env p request scopes kwargs =
          (Inr (),
           p\<lparr>self_token := Some t, self_lock_instance := True,
             trace := trace p @ (if self_lock_instance p then [] else [CreateLock])
                @ [AcquireLock, GetTokenInfo scopes (collect_options (option_keys env) kwargs),
                   SetToken (Some t), ReleaseLock]\<rparr>,
           request\<lparr>headers := (headers request)(''Authorization'' \<mapsto> ''Bearer '' @ token t)\<rparr>)
    | Inl e \<Rightarrow>
        authorize_request env p request scopes kwargs =
          (Inl (CredentialError e),
           p\<lparr>self_lock_instance := True,
             trace := trace p @ (if self_lock_instance p then [] else [CreateLock])
                @ [AcquireLock, GetTokenInfo scopes (collect_options (option_keys env) kwargs),
                   ReleaseLock]\<rparr>,
           request))"
  by (auto simp: authorize_request_def step_defs set_authorization_def count_fetch_def
      split: sum.splits)

theorem authorize_request_fetches_witness:
  "\<not> need_new_token (Some second_token) 1000
   \<and> authorize_request example_env (new_policy\<lparr>self_token := Some second_token\<rparr>)
        example_request [''scope2''] [(''tenant_id'', Text ''t''), (''timeout'', Text ''5'')]
      = (Inr (),
         new_policy\<lparr>self_token := Some example_token, self_lock_instance := True,
           trace := [CreateLock, AcquireLock,
                     GetTokenInfo [''scope2''] [(''tenant_id'', Text ''t'')],
                     SetToken (Some example_token), ReleaseLock]\<rparr>,
         example_request\<lparr>headers := [''Authorization'' \<mapsto> ''Bearer abc'']\<rparr>)"
  using authorize_request_fetches [where env = example_env
      and p = "new_policy\<lparr>self_token := Some second_token\<rparr>" and scopes = "[''scope2'']"
      and kwargs = "[(''tenant_id'', Text ''t''), (''timeout'', Text ''5'')]"
      and request = example_request]
  by (simp add: example_defs need_new_token_def count_fetch_def)

section \<open>Claims about the challenge-retry protocol\<close>

text \<open>
  Claim C6. Let \<^verbatim>\<open>send\<close> get past \<^verbatim>\<open>on_request\<close> and let the next stage answer the
  forwarded request with status 401. Then \<^verbatim>\<open>send\<close> assigns \<^verbatim>\<open>None\<close> to the cached token,
  whatever the token's expiry. If the response has no \<^verbatim>\<open>WWW-Authenticate\<close> header, that
  response is returned, the cached token is \<^verbatim>\<open>None\<close> afterwards, and the next stage was
  invoked exactly once. If the challenge handler returns false, that response is returned
  and the next stage was invoked exactly once. With \<^verbatim>\<open>on_challenge\<close> as the class defines
  it, which returns false, all three hold.
\<close>

theorem send_401_declined:
  assumes ok: "handler_ok handler"
    and req: "on_request env p (request\<lparr>options_auth_flows := None\<rparr>) (effective_auth_flows p request)
             = (Inr (), p1, request1)"
    and nxt: "next_send env (count_send (trace p1)) request1 = Inr response"
    and st: "status_code response = 401"
  shows "SetToken None \<in> set (new_events p (fst (snd (send env handler p request))))
    \<and> (response_headers response ''WWW-Authenticate'' = None \<longrightarrow>
         fst (send env handler p request) = Inr response
         \<and> self_token (fst (snd (send env handler p request))) = None
         \<and> count_send (new_events p (fst (snd (send env handler p request)))) = 1)
    \<and> (fst (handler (set_token None (log (NextSend request1) p1)) request1 response) = Inr False \<longrightarrow>
         fst (send env handler p request) = Inr response
         \<and> count_send (new_events p (fst (snd (send env handler p request)))) = 1)
    \<and> fst (send env on_challenge p request) = Inr response
    \<and> self_token (fst (snd (send env on_challenge p request))) = None
    \<and> count_send (new_events p (fst (snd (send env on_challenge p request)))) = 1"
proof -
  from on_request_events [OF req] obtain es where
    es: "trace p1 = trace p @ es" "count_send es = 0" by blast
  let ?q = "set_token None (log (NextSend request1) p1)"
  have q: "trace ?q = trace p @ es @ [NextSend request1, SetToken None]" "self_token ?q = None"
    using es by (simp_all add: set_token_def log_def)
  obtain r p2 request2 where h: "handler ?q request1 response = (r, p2, request2)"
    by (cases "handler ?q request1 response")
  from ok obtain hs where hs: "trace p2 = trace ?q @ hs" "count_send hs = 0"
    using h unfolding handler_ok_def by (metis fst_conv snd_conv)
  have S: "send env handler p request = handle_response env handler (log (NextSend request1) p1) request1 response"
    by (rule send_unfold [OF req nxt])
  have S0: "send env on_challenge p request = handle_response env on_challenge (log (NextSend request1) p1) request1 response"
    by (rule send_unfold [OF req nxt])
  have base: "send env on_challenge p request = (Inr response, ?q, request1)"
    unfolding S0 using st by (simp add: handle_response_def on_challenge_def)
  have nohdr: "response_headers response ''WWW-Authenticate'' = None \<Longrightarrow>
      send env handler p request = (Inr response, ?q, request1)"
    unfolding S using st by (simp add: handle_response_def)
  have cq: "count_send (new_events p ?q) = 1" "SetToken None \<in> set (new_events p ?q)"
    using q es by (simp_all add: new_events_def count_send_def)
  have declined: "r = Inr False \<Longrightarrow> response_headers response ''WWW-Authenticate'' \<noteq> None \<Longrightarrow>
      send env handler p request = (Inr response, p2, request2)"
    unfolding S using st h by (simp add: handle_response_def)
  have c2: "count_send (new_events p p2) = 1" "SetToken None \<in> set (new_events p p2)"
    using q hs es by (simp_all add: new_events_def count_send_def)
  have cleared: "SetToken None \<in> set (new_events p (fst (snd (send env handler p request))))"
  proof (cases "response_headers response ''WWW-Authenticate'' = None")
    case True
    with nohdr cq show ?thesis by simp
  next
    case False
    have "\<exists>p3. fst (snd (send env handler p request)) = p3 \<and> (p3 = p2 \<or> p3 = log (NextSend request2) p2)"
      unfolding S using st h False
      by (auto simp: handle_response_def forward_def on_exception_def on_response_def
          split: sum.splits bool.splits)
    then show ?thesis using q hs es by (auto simp: new_events_def log_def)
  qed
  show ?thesis
    using cleared nohdr cq base declined c2 h q(2)
    by (cases "response_headers response ''WWW-Authenticate'' = None") auto
qed

theorem send_401_declined_witness:
  "handler_ok on_challenge
   \<and> on_request plain_env new_policy (example_request\<lparr>options_auth_flows := None\<rparr>)
        (effective_auth_flows new_policy example_request)
      = (Inr (), after_first_fetch, authorized_request)
   \<and> next_send plain_env (count_send (trace after_first_fetch)) authorized_request
      = Inr plain_401_response
   \<and> status_code plain_401_response = 401
   \<and> response_headers plain_401_response ''WWW-Authenticate'' = None
   \<and> \<not> need_new_token (Some example_token) 1000
   \<and> SetToken None \<in> set (new_events new_policy
        (fst (snd (send plain_env on_challenge new_policy example_request))))
   \<and> fst (send plain_env on_challenge new_policy example_request) = Inr plain_401_response
   \<and> self_token (fst (snd (send plain_env on_challenge new_policy example_request))) = None
   \<and> count_send (new_events new_policy
        (fst (snd (send plain_env on_challenge new_policy example_request)))) = 1"
proof -
  have h1: "on_request plain_env new_policy (example_request\<lparr>options_auth_flows := None\<rparr>)
        (effective_auth_flows new_policy example_request)
      = (Inr (), after_first_fetch, authorized_request)"
    by (simp add: run_defs example_defs)
  have h2: "next_send plain_env (count_send (trace after_first_fetch)) authorized_request
      = Inr plain_401_response"
    by (simp add: example_defs)
  have h3: "status_code plain_401_response = 401"
    by (simp add: example_defs)
  have h4: "response_headers plain_401_response ''WWW-Authenticate'' = None"
    by (simp add: example_defs)
  have h5: "\<not> need_new_token (Some example_token) 1000"
    by (simp add: need_new_token_def example_defs)
  show ?thesis
    using on_challenge_ok h1 h2 h3 h4 h5 send_401_declined [OF on_challenge_ok h1 h2 h3]
    by simp
qed

text \<open>
  Claim C7. Whatever happens, one execution of \<^verbatim>\<open>send\<close> invokes the next stage at most
  twice. If the first response is a 401 with a \<^verbatim>\<open>WWW-Authenticate\<close> header and the
  challenge handler returns true, \<^verbatim>\<open>send\<close> forwards the request exactly once more and
  ends with the outcome of that second forward, whatever its status: a returned response
  is returned as it is, also a second 401, and a raised exception propagates.
\<close>

theorem send_at_most_two:
  assumes ok: "handler_ok handler"
  shows "count_send (new_events p (fst (snd (send env handler p request)))) \<le> 2
    \<and> (on_request env p (request\<lparr>options_auth_flows := None\<rparr>) (effective_auth_flows p request)
           = (Inr (), p1, request1)
        \<and> next_send env (count_send (trace p1)) request1 = Inr response
        \<and> status_code response = 401
        \<and> response_headers response ''WWW-Authenticate'' \<noteq> None
        \<and> handler (set_token None (log (NextSend request1) p1)) request1 response
           = (Inr True, p2, request2)
        \<longrightarrow> send env handler p request =
              (case next_send env (count_send (trace p2)) request2 of
                 Inl e \<Rightarrow> (Inl (NextPolicyError e), log (NextSend request2) p2, request2)
               | Inr response2 \<Rightarrow> (Inr response2, log (NextSend request2) p2, request2))
            \<and> count_send (new_events p (log (NextSend request2) p2)) = 2)"
proof (intro conjI impI)
  obtain r0 q0 rq0 where req: "on_request env p (request\<lparr>options_auth_flows := None\<rparr>) (effective_auth_flows p request) = (r0, q0, rq0)"
    using prod_cases3 by blast
  from on_request_events [OF req] obtain es where es: "trace q0 = trace p @ es" "count_send es = 0" by blast
  show "count_send (new_events p (fst (snd (send env handler p request)))) \<le> 2"
  proof (cases r0)
    case (Inl e)
    with req es show ?thesis by (simp add: send_def new_events_def)
  next
    case (Inr u)
    obtain fr q1 where fw: "forward env q0 rq0 = (fr, q1)" by (cases "forward env q0 rq0")
    have q1: "trace q1 = trace p @ es @ [NextSend rq0]"
      using forward_events [OF fw] es by (simp add: log_def)
    show ?thesis
    proof (cases fr)
      case (Inl e)
      with Inr req fw q1 es show ?thesis by (simp add: send_def new_events_def count_send_def)
    next
      case (Inr response)
      obtain r p' request' where h: "handle_response env handler q1 rq0 response = (r, p', request')"
        using prod_cases3 by blast
      from handle_response_sends [OF ok h] obtain hs where
        hs: "trace p' = trace q1 @ hs" "count_send hs \<le> 1" by blast
      have "send env handler p request = (r, p', request')"
        using \<open>r0 = Inr u\<close> Inr req fw h by (simp add: send_def)
      then show ?thesis using hs q1 es by (simp add: new_events_def count_send_def)
    qed
  qed
next
  assume a: "on_request env p (request\<lparr>options_auth_flows := None\<rparr>) (effective_auth_flows p request)
           = (Inr (), p1, request1)
        \<and> next_send env (count_send (trace p1)) request1 = Inr response
        \<and> status_code response = 401
        \<and> response_headers response ''WWW-Authenticate'' \<noteq> None
        \<and> handler (set_token None (log (NextSend request1) p1)) request1 response
           = (Inr True, p2, request2)"
  then have S: "send env handler p request = handle_response env handler (log (NextSend request1) p1) request1 response"
    by (simp add: send_unfold)
  show "send env handler p request =
              (case next_send env (count_send (trace p2)) request2 of
                 Inl e \<Rightarrow> (Inl (NextPolicyError e), log (NextSend request2) p2, request2)
               | Inr response2 \<Rightarrow> (Inr response2, log (NextSend request2) p2, request2))"
    unfolding S using a
    by (auto simp: handle_response_def forward_def on_exception_def on_response_def split: sum.splits)
  from a on_request_events obtain es where es: "trace p1 = trace p @ es" "count_send es = 0" by blast
  let ?q = "set_token None (log (NextSend request1) p1)"
  from ok obtain hs where hs: "trace p2 = trace ?q @ hs" "count_send hs = 0"
    using a unfolding handler_ok_def by (metis fst_conv snd_conv)
  show "count_send (new_events p (log (NextSend request2) p2)) = 2"
    using es hs by (simp add: new_events_def log_def set_token_def count_send_def)
qed

theorem send_at_most_two_witness:
  "handler_ok (accepting_handler example_env)
   \<and> on_request example_env new_policy (example_request\<lparr>options_auth_flows := None\<rparr>)
        (effective_auth_flows new_policy example_request)
      = (Inr (), after_first_fetch, authorized_request)
   \<and> next_send example_env (count_send (trace after_first_fetch)) authorized_request
      = Inr challenge_response
   \<and> status_code challenge_response = 401
   \<and> response_headers challenge_response ''WWW-Authenticate'' \<noteq> None
   \<and> accepting_handler example_env (set_token None (log (NextSend authorized_request) after_first_fetch))
        authorized_request challenge_response
      = (Inr True, reauthorized, reauthorized_request)
   \<and> send example_env (accepting_handler example_env) new_policy example_request
      = (Inr plain_401_response, log (NextSend reauthorized_request) reauthorized,
         reauthorized_request)
   \<and> status_code plain_401_response = 401
   \<and> count_send (new_events new_policy (log (NextSend reauthorized_request) reauthorized)) = 2
   \<and> count_send (new_events new_policy
        (fst (snd (send example_env (accepting_handler example_env) new_policy example_request))))
      \<le> 2"
proof -
  have h1: "on_request example_env new_policy (example_request\<lparr>options_auth_flows := None\<rparr>)
        (effective_auth_flows new_policy example_request)
      = (Inr (), after_first_fetch, authorized_request)"
    by (simp add: run_defs example_defs)
  have h2: "next_send example_env (count_send (trace after_first_fetch)) authorized_request
      = Inr challenge_response"
    by (simp add: example_defs count_send_def)
  have h3: "status_code challenge_response = 401"
    by (simp add: example_defs)
  have h4: "response_headers challenge_response ''WWW-Authenticate'' \<noteq> None"
    by (simp add: example_defs)
  have h5: "accepting_handler example_env
        (set_token None (log (NextSend authorized_request) after_first_fetch))
        authorized_request challenge_response
      = (Inr True, reauthorized, reauthorized_request)"
    by (simp add: accepting_handler_def run_defs example_defs)
  have h6: "next_send example_env (count_send (trace reauthorized)) reauthorized_request
      = Inr plain_401_response"
    by (simp add: example_defs count_send_def)
  have h7: "status_code plain_401_response = 401"
    by (simp add: example_defs)
  show ?thesis
    using accepting_handler_ok [of example_env] h1 h2 h3 h4 h5 h6 h7
      send_at_most_two [OF accepting_handler_ok, where env = example_env and p = new_policy
        and request = example_request and ?p1.0 = after_first_fetch
        and ?request1.0 = authorized_request and response = challenge_response
        and ?p2.0 = reauthorized and ?request2.0 = reauthorized_request]
    by simp
qed

text \<open>
  Claim C8. The events of \<^verbatim>\<open>send\<close> begin with the events of \<^verbatim>\<open>on_request\<close> called with
  the per-call override from the options bag when there is one, and with the flows the
  policy was configured with otherwise. In particular, when no token is cached and the
  target is secure, the first call of the credential carries the policy's scopes and, as
  options, the flows of the override when one is given (whatever the policy was configured
  with) and the configured flows when none is given; and with an empty list as the
  effective value, \<^verbatim>\<open>send\<close> does not call the credential.
\<close>

theorem send_effective_auth_flows:
  assumes ok: "handler_ok handler"
  shows "prefix
      (new_events p (fst (snd (on_request env p (request\<lparr>options_auth_flows := None\<rparr>)
         (case options_auth_flows request of
            Some op_auth_flows \<Rightarrow> Some op_auth_flows
          | None \<Rightarrow> self_auth_flows p)))))
      (new_events p (fst (snd (send env handler p request))))
    \<and> (self_token p = None \<and> secure_transport request
        \<and> options_auth_flows request = Some (f # fs)
        \<longrightarrow> (\<exists>rest. fetched (new_events p (fst (snd (send env handler p request))))
               = (self_scopes p, [(''auth_flows'', Flows (f # fs))]) # rest))
    \<and> (self_token p = None \<and> secure_transport request
        \<and> options_auth_flows request = None \<and> self_auth_flows p = Some (g # gs)
        \<longrightarrow> (\<exists>rest. fetched (new_events p (fst (snd (send env handler p request))))
               = (self_scopes p, [(''auth_flows'', Flows (g # gs))]) # rest))
    \<and> ((case options_auth_flows request of
            Some op_auth_flows \<Rightarrow> Some op_auth_flows
          | None \<Rightarrow> self_auth_flows p) = Some []
        \<longrightarrow> fetched (new_events p (fst (snd (send env on_challenge p request)))) = [])"
proof -
  let ?rq = "request\<lparr>options_auth_flows := None\<rparr>"
  let ?af = "effective_auth_flows p request"
  let ?p1 = "fst (snd (on_request env p ?rq ?af))"
  have af: "?af = (case options_auth_flows request of
            Some op_auth_flows \<Rightarrow> Some op_auth_flows
          | None \<Rightarrow> self_auth_flows p)"
    by (simp add: effective_auth_flows_def)
  obtain r where "on_request env p ?rq ?af = (r, ?p1, snd (snd (on_request env p ?rq ?af)))"
    by (cases "on_request env p ?rq ?af") simp
  from on_request_events [OF this] obtain es where es: "trace ?p1 = trace p @ es" by blast
  from send_extends_on_request [OF ok, of env p request] obtain tl where
    tl: "trace (fst (snd (send env handler p request))) = trace ?p1 @ tl" by blast
  have ev: "new_events p (fst (snd (send env handler p request))) = new_events p ?p1 @ tl"
    using es tl by (simp add: new_events_def)
  have first: "self_token p = None \<Longrightarrow> secure_transport request \<Longrightarrow> ?af \<noteq> Some [] \<Longrightarrow>
      \<exists>rest. fetched (new_events p (fst (snd (send env handler p request))))
               = (self_scopes p, request_options ?af) # rest"
  proof -
    assume a: "self_token p = None" "secure_transport request" "?af \<noteq> Some []"
    then have "secure_transport ?rq" by simp
    from on_request_first_fetch [OF a(1) this a(3), of env] obtain rest where
      "fetched (new_events p ?p1) = (self_scopes p, request_options ?af) # rest" by blast
    then show ?thesis unfolding ev by (simp add: fetched_append)
  qed
  have c1: "prefix (new_events p ?p1) (new_events p (fst (snd (send env handler p request))))"
    unfolding ev by simp
  have c2: "self_token p = None \<and> secure_transport request
        \<and> options_auth_flows request = Some (f # fs)
        \<longrightarrow> (\<exists>rest. fetched (new_events p (fst (snd (send env handler p request))))
               = (self_scopes p, [(''auth_flows'', Flows (f # fs))]) # rest)"
    using first by (auto simp: effective_auth_flows_def)
  have c3: "self_token p = None \<and> secure_transport request
        \<and> options_auth_flows request = None \<and> self_auth_flows p = Some (g # gs)
        \<longrightarrow> (\<exists>rest. fetched (new_events p (fst (snd (send env handler p request))))
               = (self_scopes p, [(''auth_flows'', Flows (g # gs))]) # rest)"
    using first by (auto simp: effective_auth_flows_def)
  have c4: "?af = Some [] \<longrightarrow> fetched (new_events p (fst (snd (send env on_challenge p request)))) = []"
    by (auto simp: send_def on_request_def forward_def handle_response_def on_challenge_def
        on_exception_def on_response_def set_token_def log_def new_events_def
        split: prod.splits sum.splits)
  show ?thesis using c1 c2 c3 c4 unfolding af by blast
qed

theorem send_effective_auth_flows_witness:
  "handler_ok on_challenge
   \<and> self_token new_policy = None \<and> self_auth_flows new_policy = Some [flow_b]
   \<and> secure_transport example_request
   \<and> fetched (new_events new_policy (fst (snd (send ok_env on_challenge new_policy
        (example_request\<lparr>options_auth_flows := Some [flow_a]\<rparr>)))))
      = [([''scope''], [(''auth_flows'', Flows [flow_a])])]
   \<and> fetched (new_events new_policy (fst (snd (send ok_env on_challenge new_policy
        example_request))))
      = [([''scope''], [(''auth_flows'', Flows [flow_b])])]
   \<and> fetched (new_events new_policy (fst (snd (send ok_env on_challenge new_policy
        (example_request\<lparr>options_auth_flows := Some []\<rparr>)))))
      = []"
proof -
  have h: "self_token new_policy = None" "self_auth_flows new_policy = Some [flow_b]"
      "secure_transport example_request"
    by (simp_all add: example_defs)
  have e: "fetched (new_events new_policy (fst (snd (send ok_env on_challenge new_policy
        (example_request\<lparr>options_auth_flows := Some [flow_a]\<rparr>)))))
      = [([''scope''], [(''auth_flows'', Flows [flow_a])])]"
     "fetched (new_events new_policy (fst (snd (send ok_env on_challenge new_policy
        example_request))))
      = [([''scope''], [(''auth_flows'', Flows [flow_b])])]"
    by (simp_all add: run_defs example_defs)
  show ?thesis
    using on_challenge_ok h e
      send_effective_auth_flows [OF on_challenge_ok, where env = ok_env and p = new_policy
        and request = "example_request\<lparr>options_auth_flows := Some [flow_a]\<rparr>"
        and f = flow_a and fs = "[]"]
      send_effective_auth_flows [OF on_challenge_ok, where env = ok_env and p = new_policy
        and request = example_request and g = flow_b and gs = "[]"]
      send_effective_auth_flows [OF on_challenge_ok, where env = ok_env and p = new_policy
        and request = "example_request\<lparr>options_auth_flows := Some []\<rparr>"]
    by simp
qed

section \<open>Claims about sequences of calls and about the lock\<close>

text \<open>
  Claim C4, as stated: in every sequence of \<^verbatim>\<open>send\<close> and \<^verbatim>\<open>on_request\<close> calls during
  which the cached token's \<^verbatim>\<open>expires_on\<close> stays more than 300 seconds in the future and
  its \<^verbatim>\<open>refresh_on\<close> is unset or in the future, the credential is called at most once. It
  fails: two \<^verbatim>\<open>send\<close> calls, one after the other, each answered with status 401. Every
  token the credential issues stays valid, yet line 124 clears the cache after the first
  response and the second call fetches again.
\<close>

theorem fetch_again_after_401:
  "issues_valid_tokens plain_env
   \<and> always_valid plain_env example_token \<and> always_valid plain_env second_token
   \<and> new_events new_policy
        (pol (run plain_env [0, 0, 0, 0, 1, 1, 1, 1]
           (initial new_policy [Send example_request, Send example_request])))
      = [CreateLock, AcquireLock,
         GetTokenInfo [''scope''] [(''auth_flows'', Flows [flow_b])],
         SetToken (Some example_token), ReleaseLock, NextSend authorized_request,
         SetToken None,
         AcquireLock, GetTokenInfo [''scope''] [(''auth_flows'', Flows [flow_b])],
         SetToken (Some second_token), ReleaseLock, NextSend reauthorized_request,
         SetToken None]
   \<and> \<not> count_fetch (new_events new_policy
        (pol (run plain_env [0, 0, 0, 0, 1, 1, 1, 1]
           (initial new_policy [Send example_request, Send example_request])))) \<le> 1"
proof -
  have e: "new_events new_policy
        (pol (run plain_env [0, 0, 0, 0, 1, 1, 1, 1]
           (initial new_policy [Send example_request, Send example_request])))
      = [CreateLock, AcquireLock,
         GetTokenInfo [''scope''] [(''auth_flows'', Flows [flow_b])],
         SetToken (Some example_token), ReleaseLock, NextSend authorized_request,
         SetToken None,
         AcquireLock, GetTokenInfo [''scope''] [(''auth_flows'', Flows [flow_b])],
         SetToken (Some second_token), ReleaseLock, NextSend reauthorized_request,
         SetToken None]"
    by (simp add: conc_defs run_defs example_defs need_new_token_def)
  show ?thesis
    unfolding e using plain_env_valid example_tokens_valid by (simp add: count_fetch_def)
qed

text \<open>
  Claim C4, amended. Take any number of \<^verbatim>\<open>send\<close> and \<^verbatim>\<open>on_request\<close> calls on one policy
  object, started from any policy with the lock free, and any interleaving of them at
  their suspension points. If the credential answers every call with a token whose
  \<^verbatim>\<open>expires_on\<close> is more than 300 seconds after every clock reading and whose
  \<^verbatim>\<open>refresh_on\<close> is unset or after every clock reading, and no response of the next stage
  has status 401, then the credential is called at most once. In the run of the witness
  three callers pass the first check before any token is cached; one fetches, and the
  check after acquiring the lock stops the other two.
\<close>

theorem interleaved_fetch_at_most_once:
  assumes "issues_valid_tokens env" and "never_401 env"
  shows "count_fetch (new_events p (pol (run env schedule (initial p cs)))) \<le> 1"
proof -
  from run_fetch_inv [OF assms initial_fetch_inv [of env p cs], of schedule]
  have "count_fetch (trace (pol (run env schedule (initial p cs)))) \<le> Suc (count_fetch (trace p))"
    unfolding fetch_inv_def by blast
  moreover from run_trace [of env schedule "initial p cs"] obtain es where
    "trace (pol (run env schedule (initial p cs))) = trace p @ es"
    by (auto simp: initial_def)
  ultimately show ?thesis by (simp add: new_events_def count_fetch_def)
qed

theorem interleaved_fetch_at_most_once_witness:
  "issues_valid_tokens ok_env \<and> never_401 ok_env
   \<and> new_events new_policy (pol (run ok_env racing_schedule (initial new_policy racing_calls)))
      = [CreateLock, AcquireLock, GetTokenInfo [''scope''] [], SetToken (Some example_token),
         ReleaseLock, AcquireLock, ReleaseLock, NextSend authorized_request,
         AcquireLock, ReleaseLock, NextSend authorized_request]
   \<and> count_fetch (new_events new_policy
        (pol (run ok_env racing_schedule (initial new_policy racing_calls)))) \<le> 1"
proof -
  have e: "new_events new_policy (pol (run ok_env racing_schedule (initial new_policy racing_calls)))
      = [CreateLock, AcquireLock, GetTokenInfo [''scope''] [], SetToken (Some example_token),
         ReleaseLock, AcquireLock, ReleaseLock, NextSend authorized_request,
         AcquireLock, ReleaseLock, NextSend authorized_request]"
    by (simp add: racing_schedule_def racing_calls_def conc_defs run_defs example_defs
        need_new_token_def)
  show ?thesis
    using ok_env_valid ok_env_never_401 e
      interleaved_fetch_at_most_once [OF ok_env_valid ok_env_never_401,
        where p = new_policy and schedule = racing_schedule and cs = racing_calls]
    by simp
qed

text \<open>
  Claim C9, as stated: every assignment to the cached token, in \<^verbatim>\<open>on_request\<close>,
  \<^verbatim>\<open>authorize_request\<close> and \<^verbatim>\<open>send\<close>, the 401 invalidation included, happens while the
  lock is held. It fails for \<^verbatim>\<open>send\<close>: line 124 assigns \<^verbatim>\<open>None\<close> outside any
  \<^verbatim>\<open>async with self._lock\<close> block.
\<close>

theorem unguarded_invalidation:
  "\<not> guarded False
       (new_events new_policy (fst (snd (send plain_env on_challenge new_policy example_request))))"
  by (simp add: run_defs example_defs)

text \<open>
  Claim C9, amended. Every assignment to the cached token made by \<^verbatim>\<open>on_request\<close> and by
  \<^verbatim>\<open>authorize_request\<close>, which store a fetched token, happens while the lock is held.
  The only value \<^verbatim>\<open>send\<close> assigns outside the lock is \<^verbatim>\<open>None\<close>, and it assigns it,
  once and without taking the lock, when the first response has status 401.
\<close>

theorem fetched_token_guarded:
  "guarded False (new_events p (fst (snd (on_request env p request auth_flows))))
   \<and> guarded False (new_events p (fst (snd (authorize_request env p request scopes kwargs))))
   \<and> set (unguarded_writes False (new_events p (fst (snd (send env on_challenge p request)))))
        \<subseteq> {None}
   \<and> (on_request env p (request\<lparr>options_auth_flows := None\<rparr>) (effective_auth_flows p request)
         = (Inr (), p1, request1)
       \<and> next_send env (count_send (trace p1)) request1 = Inr response
       \<and> status_code response = 401
       \<longrightarrow> unguarded_writes False (new_events p (fst (snd (send env on_challenge p request))))
            = [None])"
proof (intro conjI impI)
  obtain r q rq where h: "on_request env p request auth_flows = (r, q, rq)"
    using prod_cases3 by blast
  from on_request_events [OF h] h
  show "guarded False (new_events p (fst (snd (on_request env p request auth_flows))))"
    by (auto simp: new_events_def)
next
  from authorize_request_events [of env p request scopes kwargs]
  show "guarded False (new_events p (fst (snd (authorize_request env p request scopes kwargs))))"
    by (auto simp: new_events_def)
next
  let ?rq = "request\<lparr>options_auth_flows := None\<rparr>"
  let ?af = "effective_auth_flows p request"
  obtain r q rq where h: "on_request env p ?rq ?af = (r, q, rq)"
    using prod_cases3 by blast
  from on_request_events [OF h] obtain es where
    es: "trace q = trace p @ es" "unguarded_writes False es = []" "\<not> held_after False es"
    by blast
  from send_base_events [of env p request] h obtain tl where
    tl: "trace (fst (snd (send env on_challenge p request))) = trace q @ tl"
      "set (unguarded_writes False tl) \<subseteq> {None}"
    by auto
  show "set (unguarded_writes False (new_events p (fst (snd (send env on_challenge p request)))))
        \<subseteq> {None}"
    using es tl by (simp add: new_events_def unguarded_writes_append)
next
  assume a: "on_request env p (request\<lparr>options_auth_flows := None\<rparr>) (effective_auth_flows p request)
         = (Inr (), p1, request1)
       \<and> next_send env (count_send (trace p1)) request1 = Inr response
       \<and> status_code response = 401"
  then have req: "on_request env p (request\<lparr>options_auth_flows := None\<rparr>)
      (effective_auth_flows p request) = (Inr (), p1, request1)" by simp
  from on_request_events [OF req] obtain es where
    es: "trace p1 = trace p @ es" "unguarded_writes False es = []" "\<not> held_after False es"
    by blast
  have "send env on_challenge p request
      = handle_response env on_challenge (log (NextSend request1) p1) request1 response"
    using a by (simp add: send_unfold)
  then have "trace (fst (snd (send env on_challenge p request)))
      = trace p @ es @ [NextSend request1, SetToken None]"
    using a es by (auto simp: handle_response_def on_challenge_def set_token_def log_def)
  then show "unguarded_writes False (new_events p (fst (snd (send env on_challenge p request))))
            = [None]"
    using es by (simp add: new_events_def unguarded_writes_append)
qed

theorem fetched_token_guarded_witness:
  "on_request plain_env new_policy (example_request\<lparr>options_auth_flows := None\<rparr>)
        (effective_auth_flows new_policy example_request)
      = (Inr (), after_first_fetch, authorized_request)
   \<and> next_send plain_env (count_send (trace after_first_fetch)) authorized_request
      = Inr plain_401_response
   \<and> status_code plain_401_response = 401
   \<and> new_events new_policy after_first_fetch
      = [CreateLock, AcquireLock, GetTokenInfo [''scope''] [(''auth_flows'', Flows [flow_b])],
         SetToken (Some example_token), ReleaseLock]
   \<and> guarded False (new_events new_policy after_first_fetch)
   \<and> unguarded_writes False
        (new_events new_policy (fst (snd (send plain_env on_challenge new_policy example_request))))
      = [None]"
proof -
  have h1: "on_request plain_env new_policy (example_request\<lparr>options_auth_flows := None\<rparr>)
        (effective_auth_flows new_policy example_request)
      = (Inr (), after_first_fetch, authorized_request)"
    by (simp add: run_defs example_defs)
  have h2: "next_send plain_env (count_send (trace after_first_fetch)) authorized_request
      = Inr plain_401_response"
    by (simp add: example_defs)
  have h3: "status_code plain_401_response = 401"
    by (simp add: example_defs)
  have h4: "new_events new_policy after_first_fetch
      = [CreateLock, AcquireLock, GetTokenInfo [''scope''] [(''auth_flows'', Flows [flow_b])],
         SetToken (Some example_token), ReleaseLock]"
    by (simp add: new_events_def example_defs)
  show ?thesis
    using h1 h2 h3 h4
      fetched_token_guarded [where env = plain_env and p = new_policy
        and request = example_request and ?p1.0 = after_first_fetch
        and ?request1.0 = authorized_request and response = plain_401_response
        and auth_flows = "effective_auth_flows new_policy example_request"
        and scopes = "[]" and kwargs = "[]"]
    by simp
qed

end
